theory Spec2Isabelle
  imports Main "HOL-Library.AList" "HOL-Library.Sublist" "HOL-Library.Char_ord"
    "HOL-Library.List_Lexorder"
begin

section \<open>The tree IR consumed by the rewriter\<close>

text \<open>
  The rewriter of \<^verbatim>\<open>devito/dle/backends/advanced.py\<close> works on Iteration/Expression
  trees. The node classes themselves live in \<^verbatim>\<open>devito.nodes\<close>; what follows are the
  fields of those classes that the passes of \<^verbatim>\<open>advanced.py\<close> read or set.

  Loop limits are symbolic: the block size of a blocked loop is a run-time argument and
  the bounds of an intra-block loop mention the induction variable of the inter-block
  loop. Python builds them with \<^verbatim>\<open>-\<close>, \<^verbatim>\<open>+\<close> and \<^verbatim>\<open>%\<close> on symbols; the
  model keeps the expression as it is written, without algebraic simplification.
\<close>

datatype sexpr =
    Num int
  | Sym string
  | Add sexpr sexpr
  | Sub sexpr sexpr
  | Mod sexpr sexpr

record dimension =
  dname :: string
  dsize :: "int option"

datatype property = PARALLEL | VECTORIZABLE | SEQUENTIAL | ELEMENTAL | REMAINDER | TAG nat

datatype pragma =
    OmpFor
  | OmpCollapse nat
  | OmpSimdFor
  | OmpSimdForAligned string
  | OmpParRegion string
  | Decoration string

datatype dtype = Float32 | Float64 | Int32 | OtherType string

record func =
  fname :: string
  indices :: "dimension list"
  shape :: "int list"
  mem_stack :: bool
  is_SymbolicData :: bool

text \<open>
  The right-hand side of an \<^verbatim>\<open>Expression\<close>: the passes never look into it, they read
  the functions it references and the function it writes.
\<close>

record rhs =
  text_of :: string
  e_functions :: "func list"
  output_function :: func

datatype node =
    Expression (expr: rhs) (e_dtype: dtype)
  | Iteration (nodes: "node list") (dim: dimension) (limits: "sexpr \<times> sexpr \<times> sexpr")
      (offsets: "int \<times> int") (properties: "property list") (pragmas: "pragma list")
  | List (header: "pragma list") (body: "node list") (footer: "pragma list")
  | Block (header: "pragma list") (body: "node list") (footer: "pragma list")
  | Denormals

definition is_Parallel :: "node \<Rightarrow> bool" where
  "is_Parallel i = (PARALLEL \<in> set (properties i))"

definition is_Vectorizable :: "node \<Rightarrow> bool" where
  "is_Vectorizable i = (VECTORIZABLE \<in> set (properties i))"


fun is_Iteration :: "node \<Rightarrow> bool" where
  "is_Iteration (Iteration ns d l off ps pr) = True"
| "is_Iteration _ = False"

fun is_Expression :: "node \<Rightarrow> bool" where
  "is_Expression (Expression e t) = True"
| "is_Expression _ = False"

text \<open>\<^verbatim>\<open>Dimension.symbolic_size\<close>: the symbol that stands for a size known at run time.\<close>

definition symbolic_size :: "dimension \<Rightarrow> sexpr" where
  "symbolic_size d = Sym (dname d @ ''_size'')"

text \<open>\<^verbatim>\<open>node._rebuild(nodes)\<close>: the same loop around another body.\<close>

fun rebuild_nodes :: "node \<Rightarrow> node list \<Rightarrow> node" where
  "rebuild_nodes (Iteration ns d l off ps pr) b = Iteration b d l off ps pr"
| "rebuild_nodes n b = n"

text \<open>\<^verbatim>\<open>node._rebuild(properties=...)\<close>.\<close>

fun rebuild_properties :: "node \<Rightarrow> property list \<Rightarrow> node" where
  "rebuild_properties (Iteration ns d l off ps pr) ps' = Iteration ns d l off ps' pr"
| "rebuild_properties n ps' = n"


text \<open>
  Modelled from the spec: \<^verbatim>\<open>compose_nodes\<close> is not among the sources. The spec composes a
  tree from "all inter-block loops (outermost), then all intra-block loops, then the
  original innermost body": each loop of the list becomes the only child of the one
  before it, and the last loop receives the body. With no loop to nest, the body is
  returned as a plain sequence.
\<close>

fun compose_nodes :: "node list \<Rightarrow> node list \<Rightarrow> node" where
  "compose_nodes [] b = List [] b []"
| "compose_nodes [i] b = rebuild_nodes i b"
| "compose_nodes (i # j # is) b = rebuild_nodes i [compose_nodes (j # is) b]"

section \<open>Loop blocking: the loops built for one nest\<close>

text \<open>
  \<^verbatim>\<open>blocked.setdefault(i, Dimension("%s_block" % i.dim.name))\<close> on the ordered
  dictionary \<^verbatim>\<open>blocked\<close>: the value already stored under the key, or else the default,
  which is then stored at the end.
\<close>

definition setdefault :: "('k \<times> 'v) list \<Rightarrow> 'k \<Rightarrow> 'v \<Rightarrow> 'v \<times> ('k \<times> 'v) list" where
  "setdefault m k d = (case map_of m k of Some v \<Rightarrow> (v, m) | None \<Rightarrow> (d, m @ [(k, d)]))"

definition block_dimension :: "node \<Rightarrow> dimension" where
  "block_dimension i = \<lparr> dname = dname (dim i) @ ''_block'', dsize = None \<rparr>"

text \<open>\<^verbatim>\<open>i.dim.size or i.dim.symbolic_size\<close>: a size that is absent or zero is falsy.\<close>

definition iter_size :: "node \<Rightarrow> sexpr" where
  "iter_size i = (case dsize (dim i) of
       None \<Rightarrow> symbolic_size (dim i)
     | Some n \<Rightarrow> if n = 0 then symbolic_size (dim i) else Num n)"

text \<open>Lines 151 to 160: the loop over the blocks of one dimension.\<close>

definition inter_block_of :: "dimension \<Rightarrow> node \<Rightarrow> node" where
  "inter_block_of d i =
    (let block_size = symbolic_size d;
         start = Sub (fst (limits i)) (Num (fst (offsets i)));
         finish = Sub (iter_size i) (Num (snd (offsets i)));
         finish = Sub finish (Mod (Sub finish (Num (snd (offsets i)))) block_size)
     in Iteration [] d (start, finish, block_size) (0, 0) [PARALLEL] [])"

text \<open>Lines 162 to 167: the loop within one block.\<close>

definition intra_block_of :: "dimension \<Rightarrow> node \<Rightarrow> property \<Rightarrow> node" where
  "intra_block_of d i tag =
    (let block_size = symbolic_size d;
         start = Sym (dname d);
         finish = Add start block_size
     in Iteration [] (dim i) (start, finish, Num 1) (0, 0)
          (properties i @ [tag, ELEMENTAL]) (pragmas i))"

text \<open>Lines 169 to 175: the unit-step loop over the leftover region.\<close>

definition remainder_of :: "dimension \<Rightarrow> node \<Rightarrow> node" where
  "remainder_of d i =
    (let start = fst (snd (limits (inter_block_of d i)));
         finish = Sub (iter_size i) (Num (snd (offsets i)))
     in Iteration [] (dim i) (start, finish, Num 1) (0, 0) (properties i) (pragmas i))"

text \<open>
  The loop of lines 150 to 175 over the selected iterations, threading the dictionary
  \<^verbatim>\<open>blocked\<close>. The result lists, per selected iteration, its inter-block, intra-block
  and remainder loop.
\<close>

fun build_blocks ::
  "(node \<times> dimension) list \<Rightarrow> property \<Rightarrow> node list
     \<Rightarrow> (node \<times> node \<times> node) list \<times> (node \<times> dimension) list" where
  "build_blocks blocked tag [] = ([], blocked)"
| "build_blocks blocked tag (i # is) =
    (let (d, blocked1) = setdefault blocked i (block_dimension i);
         (rest, blocked2) = build_blocks blocked1 tag is
     in ((inter_block_of d i, intra_block_of d i tag, remainder_of d i) # rest, blocked2))"

text \<open>
  \<^verbatim>\<open>itertools.combinations(xs, r)\<close>: the length-\<open>r\<close> subsequences of \<open>xs\<close>, in
  lexicographic order of their positions.
\<close>

fun combinations :: "'a list \<Rightarrow> nat \<Rightarrow> 'a list list" where
  "combinations xs 0 = [[]]"
| "combinations [] (Suc r) = []"
| "combinations (x # xs) (Suc r) = map ((#) x) (combinations xs r) @ combinations xs (Suc r)"

text \<open>Lines 185 to 195: the remainder tree of one combination \<open>c\<close> of dimensions.\<close>

definition remainder_tree ::
  "(node \<times> node \<times> node) list \<Rightarrow> property \<Rightarrow> node list \<Rightarrow> dimension list \<Rightarrow> node" where
  "remainder_tree blocks tag inner c =
    (let inter_part =
           map (\<lambda>(b, b', r). rebuild_properties b (properties b @ [REMAINDER]))
             (filter (\<lambda>(b, b', r). dim r \<notin> set c) blocks);
         props = [REMAINDER, tag, ELEMENTAL];
         per_dim =
           map (\<lambda>(b, b', r). rebuild_properties (if dim b' \<in> set c then r else b') props) blocks
     in compose_nodes (inter_part @ per_dim) inner)"

text \<open>Lines 182 to 195: all remainder trees, by growing size of the combination.\<close>

definition all_combinations :: "'a list \<Rightarrow> 'a list list" where
  "all_combinations ds = concat (map (\<lambda>n. combinations ds (n + 1)) [0..<length ds])"

definition remainder_trees ::
  "(node \<times> node \<times> node) list \<Rightarrow> property \<Rightarrow> node list \<Rightarrow> node list \<Rightarrow> node list" where
  "remainder_trees blocks tag inner iterations =
     map (remainder_tree blocks tag inner) (all_combinations (map dim iterations))"

text \<open>Lines 178 and 179: the blocked nest.\<close>

definition blocked_tree :: "(node \<times> node \<times> node) list \<Rightarrow> node list \<Rightarrow> node" where
  "blocked_tree blocks inner =
     compose_nodes (map fst blocks @ map (\<lambda>(b, b', r). b') blocks) inner"

text \<open>Lines 133 to 135: the iterations of a nest that are blocked.\<close>

definition select_iterations :: "bool \<Rightarrow> node list \<Rightarrow> node list" where
  "select_iterations exclude_innermost tree =
    (let iterations = filter is_Parallel tree
     in if exclude_innermost then filter (\<lambda>i. \<not> is_Vectorizable i) iterations
        else iterations)"

text \<open>
  Modelled from the spec: \<^verbatim>\<open>IsPerfectIteration\<close> is not among the sources. The spec requires
  "the selected root to head a perfectly nested sub-tree (every intermediate level has
  exactly one child)", and calls a nest perfect when "every level in a nest has exactly
  one child, down to the body": a loop is perfect when its children hold no loop, or
  when its only child is a perfect loop.
\<close>

fun has_Iteration :: "node \<Rightarrow> bool" where
  "has_Iteration (Iteration ns d l off ps pr) = True"
| "has_Iteration (List h b f) = list_ex has_Iteration b"
| "has_Iteration (Block h b f) = list_ex has_Iteration b"
| "has_Iteration (Expression e t) = False"
| "has_Iteration Denormals = False"

fun IsPerfectIteration :: "node \<Rightarrow> bool" where
  "IsPerfectIteration (Iteration ns d l off ps pr) =
     (if list_ex has_Iteration ns
      then (case ns of [c] \<Rightarrow> is_Iteration c \<and> IsPerfectIteration c | _ \<Rightarrow> False)
      else True)"
| "IsPerfectIteration (List h b f) = False"
| "IsPerfectIteration (Block h b f) = False"
| "IsPerfectIteration (Expression e t) = False"
| "IsPerfectIteration Denormals = False"

text \<open>
  Modelled from the spec: \<^verbatim>\<open>retrieve_iteration_tree\<close> is not among the sources. The passes
  work "for each maximal iteration nest", a nest being "a chain of nested loop nodes":
  every path of loops from an outermost loop down to a loop that holds no further loop,
  in the order of the tree.
\<close>

fun retrieve_iteration_tree :: "node \<Rightarrow> node list list" where
  "retrieve_iteration_tree (Iteration ns d l off ps pr) =
     (let below = concat (map retrieve_iteration_tree ns)
      in if below = [] then [[Iteration ns d l off ps pr]]
         else map ((#) (Iteration ns d l off ps pr)) below)"
| "retrieve_iteration_tree (List h b f) = concat (map retrieve_iteration_tree b)"
| "retrieve_iteration_tree (Block h b f) = concat (map retrieve_iteration_tree b)"
| "retrieve_iteration_tree (Expression e t) = []"
| "retrieve_iteration_tree Denormals = []"

text \<open>\<^verbatim>\<open>tagger(len(mapper))\<close>: the tag of the nests blocked so far in this tree.\<close>

definition tagger :: "nat \<Rightarrow> property" where
  "tagger n = TAG n"

text \<open>
  Lines 132 to 198, the body of the loop over the nests of one tree: the dictionary
  \<^verbatim>\<open>blocked\<close> and the substitution \<^verbatim>\<open>mapper\<close> come in, and go out extended when
  the nest is blocked. A nest that is not blocked (\<^verbatim>\<open>continue\<close>) leaves both as they
  are. \<^verbatim>\<open>mapper[root] = ...\<close> on a dictionary is \<open>AList.update\<close>.
\<close>

definition block_nest ::
  "bool \<Rightarrow> (node \<times> dimension) list \<Rightarrow> (node \<times> node) list \<Rightarrow> node list
     \<Rightarrow> (node \<times> dimension) list \<times> (node \<times> node) list" where
  "block_nest exclude_innermost blocked mapper tree =
    (let iterations = select_iterations exclude_innermost tree
     in if iterations = [] then (blocked, mapper)
        else let root = hd iterations
        in if \<not> IsPerfectIteration root then (blocked, mapper)
        else let tag = tagger (length mapper);
                 (blocks, blocked') = build_blocks blocked tag iterations;
                 inner = nodes (last iterations)
        in (blocked',
            AList.update root
              (List [] (blocked_tree blocks inner # remainder_trees blocks tag inner iterations) [])
              mapper))"



text \<open>The nests below a sequence of nodes.\<close>

abbreviation (input) paths_of :: "node list \<Rightarrow> node list list" where
  "paths_of ns \<equiv> concat (map retrieve_iteration_tree ns)"

section \<open>Loop blocking: the pass\<close>

datatype error = DLEException | AssertionError | IndexError | KeyError | TypeError

text \<open>
  Modelled from the spec: the tree-substitution visitor \<^verbatim>\<open>Transformer\<close> is not among
  the sources. It "replaces subtrees": a node that is a key of the mapper is replaced by its
  value, without looking into the value; any other node is rebuilt around its visited
  children. A key whose value is \<^verbatim>\<open>None\<close> is dropped from its parent, which is why
  \<^verbatim>\<open>_ompize\<close> tests the result against \<^verbatim>\<open>None\<close> (line 319).
\<close>

fun Transformer_visit :: "(node \<times> node option) list \<Rightarrow> node \<Rightarrow> node option" where
  "Transformer_visit m n =
    (case map_of m n of
       Some v \<Rightarrow> v
     | None \<Rightarrow>
        (case n of
           Iteration ns d l off ps pr \<Rightarrow>
             Some (Iteration
               (concat (map (\<lambda>c. case Transformer_visit m c of None \<Rightarrow> [] | Some c' \<Rightarrow> [c']) ns))
               d l off ps pr)
         | List h b f \<Rightarrow>
             Some (List h
               (concat (map (\<lambda>c. case Transformer_visit m c of None \<Rightarrow> [] | Some c' \<Rightarrow> [c']) b)) f)
         | Block h b f \<Rightarrow>
             Some (Block h
               (concat (map (\<lambda>c. case Transformer_visit m c of None \<Rightarrow> [] | Some c' \<Rightarrow> [c']) b)) f)
         | _ \<Rightarrow> Some n))"

declare Transformer_visit.simps [simp del]

text \<open>Lines 130 to 198 for one (folded) tree: the nests are processed in order.\<close>

fun block_nests ::
  "bool \<Rightarrow> (node \<times> dimension) list \<Rightarrow> (node \<times> node) list \<Rightarrow> node list list
     \<Rightarrow> (node \<times> dimension) list \<times> (node \<times> node) list" where
  "block_nests exclude_innermost blocked mapper [] = (blocked, mapper)"
| "block_nests exclude_innermost blocked mapper (tree # trees) =
    (let (blocked', mapper') = block_nest exclude_innermost blocked mapper tree
     in block_nests exclude_innermost blocked' mapper' trees)"

text \<open>
  Lines 126 to 203, the loop over \<^verbatim>\<open>state.nodes\<close>. The helpers
  \<^verbatim>\<open>fold_blockable_tree\<close> and \<^verbatim>\<open>unfold_blocked_tree\<close> are not among the sources and the spec
  only names them; they are parameters here.
\<close>

fun block_trees ::
  "(node \<Rightarrow> bool \<Rightarrow> node) \<Rightarrow> (node \<Rightarrow> node) \<Rightarrow> bool \<Rightarrow> (node \<times> dimension) list \<Rightarrow> node list
     \<Rightarrow> (node \<times> dimension) list \<times> node list" where
  "block_trees fold_blockable_tree unfold_blocked_tree exclude_innermost blocked [] = (blocked, [])"
| "block_trees fold_blockable_tree unfold_blocked_tree exclude_innermost blocked (n # ns) =
    (let fold = fold_blockable_tree n exclude_innermost;
         (blocked', mapper) =
            block_nests exclude_innermost blocked [] (retrieve_iteration_tree fold);
         rebuilt = Transformer_visit (map (\<lambda>(k, v). (k, Some v)) mapper) fold;
         (blocked'', processed) =
            block_trees fold_blockable_tree unfold_blocked_tree exclude_innermost blocked' ns
     in (blocked'', map unfold_blocked_tree (case rebuilt of None \<Rightarrow> [] | Some r \<Rightarrow> [r]) @ processed))"

text \<open>
  The parameter \<^verbatim>\<open>blockshape\<close>: absent, a value without a length, a sequence, or a
  dictionary (the docstring's \<^verbatim>\<open>{i: 4, j: 7}\<close>), which \<^verbatim>\<open>zip\<close> iterates by key.
\<close>

datatype blockshape_param =
    BS_None
  | BS_Scalar int
  | BS_Seq "int list"
  | BS_Dict "(string \<times> int) list"

text \<open>
  The value bound to a blocked dimension: the callable \<^verbatim>\<open>heuristic\<close>, \<^verbatim>\<open>None\<close>, a
  number, or a key of the caller's dictionary.
\<close>

datatype block_value = Heuristic | Unset | Value int | Key string

text \<open>Lines 213 to 215.\<close>

definition heuristic :: "int \<Rightarrow> int" where
  "heuristic dim_size = (let ths = 8 in if dim_size > ths then ths else 1)"

text \<open>\<^verbatim>\<open>not blockshape\<close>.\<close>

fun falsy :: "blockshape_param \<Rightarrow> bool" where
  "falsy BS_None = True"
| "falsy (BS_Scalar n) = (n = 0)"
| "falsy (BS_Seq xs) = (xs = [])"
| "falsy (BS_Dict kvs) = (kvs = [])"

text \<open>\<^verbatim>\<open>len(blockshape)\<close>, a \<^verbatim>\<open>TypeError\<close> for a value without a length.\<close>

fun len :: "blockshape_param \<Rightarrow> error + nat" where
  "len BS_None = Inl TypeError"
| "len (BS_Scalar n) = Inl TypeError"
| "len (BS_Seq xs) = Inr (length xs)"
| "len (BS_Dict kvs) = Inr (length kvs)"

text \<open>The items that iterating over \<^verbatim>\<open>blockshape\<close> yields.\<close>

fun items :: "blockshape_param \<Rightarrow> block_value list" where
  "items (BS_Seq xs) = map Value xs"
| "items (BS_Dict kvs) = map (\<lambda>(k, v). Key k) kvs"
| "items _ = []"

text \<open>A dictionary comprehension over pairs: a later pair overrides an earlier one.\<close>

definition dict_of :: "('k \<times> 'v) list \<Rightarrow> ('k \<times> 'v) list" where
  "dict_of kvs = fold (\<lambda>(k, v) m. AList.update k v m) kvs []"

text \<open>\<^verbatim>\<open>d.update(other)\<close>.\<close>

definition dict_update :: "('k \<times> 'v) list \<Rightarrow> ('k \<times> 'v) list \<Rightarrow> ('k \<times> 'v) list" where
  "dict_update d other = fold (\<lambda>(k, v) m. AList.update k v m) other d"

text \<open>
  Lines 210 to 230: the block shape, and the diagnostics that \<^verbatim>\<open>dle_warning\<close> emits.
\<close>

definition resolve_blockshape ::
  "blockshape_param \<Rightarrow> (node \<times> dimension) list
     \<Rightarrow> error + (node \<times> block_value) list \<times> string list" where
  "resolve_blockshape blockshape blocked =
    (if falsy blockshape then Inr (dict_of (map (\<lambda>k. (k, Heuristic)) (map fst blocked)), [])
     else
       (case
         (case len blockshape of
            Inr nitems \<Rightarrow>
              (let nrequired = length blocked;
                   bshape = dict_of (zip (map fst blocked) (items blockshape))
               in Inr (bshape,
                   (if nitems > nrequired
                    then [''Provided blockshape has more entries than blocked loops; dropping entries ...'']
                    else []) @
                   (if nitems < nrequired
                    then [''Provided blockshape has fewer entries than blocked loops; dropping dimensions ...'']
                    else [])))
          | Inl e \<Rightarrow>
              (case blocked of
                 [] \<Rightarrow> Inl IndexError
               | (k, d) # rest \<Rightarrow>
                   Inr ([(k, (case blockshape of BS_Scalar n \<Rightarrow> Value n | _ \<Rightarrow> Unset))], [])))
        of
          Inl e \<Rightarrow> Inl e
        | Inr (bshape, warnings) \<Rightarrow>
            Inr (dict_update bshape
                   (map (\<lambda>k. (k, Unset)) (filter (\<lambda>k. map_of bshape k = None) (map fst blocked))),
                 warnings)))"

record BlockingArg =
  blocked_dim :: dimension
  iteration :: node
  arg_value :: block_value

text \<open>Line 233; a key missing from the block bshape would be a \<^verbatim>\<open>KeyError\<close>.\<close>

fun blocking_args ::
  "(node \<times> block_value) list \<Rightarrow> (node \<times> dimension) list \<Rightarrow> error + BlockingArg list" where
  "blocking_args bshape [] = Inr []"
| "blocking_args bshape ((k, v) # kvs) =
    (case map_of bshape k of
       None \<Rightarrow> Inl KeyError
     | Some b \<Rightarrow>
        (case blocking_args bshape kvs of
           Inl e \<Rightarrow> Inl e
         | Inr as \<Rightarrow> Inr (\<lparr> blocked_dim = v, iteration = k, arg_value = b \<rparr> # as)))"

text \<open>What a pass returns: the fields it sets, and the diagnostics it has emitted.\<close>

record pass_result =
  res_nodes :: "node list"
  res_arguments :: "BlockingArg list"
  res_flags :: "string list"
  res_warnings :: "string list"

text \<open>Lines 205 to 235: from the blocked dimensions to the result of the pass.\<close>

definition finish_blocking ::
  "blockshape_param \<Rightarrow> (node \<times> dimension) list \<Rightarrow> node list \<Rightarrow> error + pass_result" where
  "finish_blocking blockshape blocked processed =
    (if blocked = []
     then Inr \<lparr> res_nodes = processed, res_arguments = [], res_flags = [], res_warnings = [] \<rparr>
     else
       (case resolve_blockshape blockshape blocked of
          Inl e \<Rightarrow> Inl e
        | Inr (bshape, warnings) \<Rightarrow>
           (case blocking_args bshape blocked of
              Inl e \<Rightarrow> Inl e
            | Inr arguments \<Rightarrow>
                Inr \<lparr> res_nodes = processed, res_arguments = arguments,
                      res_flags = [''blocking''], res_warnings = warnings \<rparr>)))"

text \<open>The parameters of the rewriter that the passes read.\<close>

record params =
  openmp :: bool
  blockshape :: blockshape_param
  blockinner :: "bool option"

text \<open>Line 122: \<^verbatim>\<open>not self.params.get('blockinner', False)\<close>.\<close>

definition exclude_innermost_of :: "params \<Rightarrow> bool" where
  "exclude_innermost_of ps = (\<not> (case blockinner ps of None \<Rightarrow> False | Some b \<Rightarrow> b))"

text \<open>\<^verbatim>\<open>_loop_blocking\<close>, lines 122 to 235.\<close>

definition loop_blocking ::
  "(node \<Rightarrow> bool \<Rightarrow> node) \<Rightarrow> (node \<Rightarrow> node) \<Rightarrow> params \<Rightarrow> node list \<Rightarrow> error + pass_result" where
  "loop_blocking fold_blockable_tree unfold_blocked_tree ps state_nodes =
    (let exclude_innermost = exclude_innermost_of ps;
         (blocked, processed) =
            block_trees fold_blockable_tree unfold_blocked_tree exclude_innermost [] state_nodes
     in finish_blocking (blockshape ps) blocked processed)"

section \<open>OpenMP decoration\<close>



fun FindNodes_Expression :: "node \<Rightarrow> node list" where
  "FindNodes_Expression (Expression e t) = [Expression e t]"
| "FindNodes_Expression Denormals = []"
| "FindNodes_Expression (Iteration ns d l off ps pr) = concat (map FindNodes_Expression ns)"
| "FindNodes_Expression (List h b f) = concat (map FindNodes_Expression b)"
| "FindNodes_Expression (Block h b f) = concat (map FindNodes_Expression b)"


definition FindSymbols_symbolics_writes :: "node \<Rightarrow> func list" where
  "FindSymbols_symbolics_writes n =
     remdups (map (\<lambda>e. output_function (expr e)) (FindNodes_Expression n))"


text \<open>The thresholds of the rewriter (a class attribute of \<^verbatim>\<open>BasicRewriter\<close>).\<close>

record thresholds =
  collapse :: int
  max_fission :: int
  min_fission :: int








section \<open>Loop fission\<close>

text \<open>
  Modelled from the spec: \<^verbatim>\<open>grouper\<close> of \<^verbatim>\<open>devito.tools\<close> is not among the sources. The
  spec is to "partition the expressions into fixed-size groups (configurable group
  size)": groups of \<open>n\<close> items in order, the last one possibly shorter, and no group
  at all for a size that is not positive.
\<close>

fun grouper_from :: "nat \<Rightarrow> 'a list \<Rightarrow> 'a list \<Rightarrow> 'a list list" where
  "grouper_from n acc [] = (if acc = [] then [] else [rev acc])"
| "grouper_from n acc (x # xs) =
     (if Suc (length acc) = n then rev (x # acc) # grouper_from n [] xs
      else grouper_from n (x # acc) xs)"

definition grouper :: "'a list \<Rightarrow> int \<Rightarrow> 'a list list" where
  "grouper xs n = (if n \<le> 0 then [] else grouper_from (nat n) [] xs)"

text \<open>
  \<^verbatim>\<open>any(dim != i.indices[-1] for i in functions)\<close>: the generator is consumed in order
  and stops at the first difference; a function without indices raises.
\<close>

fun any_differs :: "dimension \<Rightarrow> func list \<Rightarrow> error + bool" where
  "any_differs d [] = Inr False"
| "any_differs d (i # is) =
     (if indices i = [] then Inl IndexError
      else if d \<noteq> last (indices i) then Inr True
      else any_differs d is)"

text \<open>
  Lines 51 to 93, the body of the loop over the nests of one tree: \<open>None\<close> when the
  candidate is skipped (\<^verbatim>\<open>continue\<close>), otherwise the entry added to the mapper.
  \<^verbatim>\<open>promote_scalar_expressions\<close> is not among the sources and is a parameter. The functions
  of the expressions are collected in a Python set, whose order is not specified; the
  model lists each of them once, in the order that \<open>remdups\<close> leaves.
\<close>

definition fission_nest ::
  "thresholds \<Rightarrow> (rhs list \<Rightarrow> int \<Rightarrow> dimension \<Rightarrow> rhs list) \<Rightarrow> node list
     \<Rightarrow> error + (node \<times> node) option" where
  "fission_nest ths promote_scalar_expressions tree =
    (if length tree \<le> 1 then Inr None
     else
       let candidate = last tree;
           expressions = filter is_Expression (nodes candidate)
       in if int (length expressions) < max_fission ths then Inr None
          else if length expressions \<noteq> length (nodes candidate) then Inr None
          else if expressions = [] then Inl TypeError
          else
            let functions = remdups (concat (map (\<lambda>e. e_functions (expr e)) expressions));
                wrapped = map expr expressions
            in if functions = [] \<or> wrapped = [] then Inr None
               else
                 let handle = hd functions
                 in if indices handle = [] \<or> shape handle = [] then Inl IndexError
                    else
                      let d = last (indices handle);
                          size = last (shape handle)
                      in (case any_differs d functions of
                            Inl e \<Rightarrow> Inl e
                          | Inr True \<Rightarrow> Inr None
                          | Inr False \<Rightarrow>
                              (let wrapped = promote_scalar_expressions wrapped size d
                               in if length wrapped \<noteq> length expressions then Inl AssertionError
                                  else
                                    let rebuilt = map (\<lambda>(s, e). Expression s (e_dtype e))
                                                      (zip wrapped expressions);
                                        props = properties candidate @ [ELEMENTAL];
                                        n = min_fission ths;
                                        fissioned =
                                          map (\<lambda>g. rebuild_nodes (rebuild_properties candidate props) g)
                                              (grouper rebuilt n)
                                    in Inr (Some (candidate, List [] fissioned [])))))"

text \<open>The functions that line 65 collects for the candidate of a nest.\<close>

definition referenced :: "node list \<Rightarrow> func list" where
  "referenced tree =
     remdups (concat (map (\<lambda>e. e_functions (expr e)) (filter is_Expression (nodes (last tree)))))"

text \<open>Lines 49 to 95 for one tree of \<^verbatim>\<open>state.nodes\<close>.\<close>

fun fission_nests ::
  "thresholds \<Rightarrow> (rhs list \<Rightarrow> int \<Rightarrow> dimension \<Rightarrow> rhs list) \<Rightarrow> (node \<times> node) list
     \<Rightarrow> node list list \<Rightarrow> error + (node \<times> node) list" where
  "fission_nests ths promote mapper [] = Inr mapper"
| "fission_nests ths promote mapper (tree # trees) =
    (case fission_nest ths promote tree of
       Inl e \<Rightarrow> Inl e
     | Inr None \<Rightarrow> fission_nests ths promote mapper trees
     | Inr (Some (k, v)) \<Rightarrow> fission_nests ths promote (AList.update k v mapper) trees)"

text \<open>\<^verbatim>\<open>_loop_fission\<close>, lines 47 to 97.\<close>

fun loop_fission ::
  "thresholds \<Rightarrow> (rhs list \<Rightarrow> int \<Rightarrow> dimension \<Rightarrow> rhs list) \<Rightarrow> node list \<Rightarrow> error + node list" where
  "loop_fission ths promote [] = Inr []"
| "loop_fission ths promote (n # ns) =
    (case fission_nests ths promote [] (retrieve_iteration_tree n) of
       Inl e \<Rightarrow> Inl e
     | Inr mapper \<Rightarrow>
        (case loop_fission ths promote ns of
           Inl e \<Rightarrow> Inl e
         | Inr processed \<Rightarrow>
             Inr ((case Transformer_visit (map (\<lambda>(k, v). (k, Some v)) mapper) n of
                     None \<Rightarrow> [] | Some r \<Rightarrow> [r]) @ processed)))"

section \<open>Padding\<close>

text \<open>
  The capabilities of the target that the padding pass consults, none of them among
  the sources: \<^verbatim>\<open>get_simd_items\<close> (a \<^verbatim>\<open>KeyError\<close> for a dtype it does not know is
  \<open>None\<close>), the entry \<^verbatim>\<open>simdinfo['avx512f']\<close> and \<^verbatim>\<open>np.dtype(dtype).itemsize\<close>.
\<close>

record platform =
  get_simd_items :: "dtype \<Rightarrow> int option"
  simdinfo_avx512f :: int
  itemsize :: "dtype \<Rightarrow> int"

text \<open>
  Modelled from the spec: \<^verbatim>\<open>roundm\<close> of \<^verbatim>\<open>devito.tools\<close> is not among the sources. The
  padded extent is "the smallest multiple of the target vector width that is \<open>\<ge>\<close> the
  original trailing extent".
\<close>

definition roundm :: "int \<Rightarrow> int \<Rightarrow> int" where
  "roundm x y = (if x mod y = 0 then x else x + y - x mod y)"

text \<open>\<^verbatim>\<open>max(shapes, key=len)\<close>: the first shape of greatest length.\<close>

fun max_by_len :: "'a list \<Rightarrow> 'a list list \<Rightarrow> 'a list" where
  "max_by_len best [] = best"
| "max_by_len best (x # xs) = max_by_len (if length x > length best then x else best) xs"

text \<open>
  \<^verbatim>\<open>[i for i in handle if i.shape[-1] == shape[-1]]\<close>: a symbol without a shape raises.
\<close>

fun same_trailing :: "int \<Rightarrow> func list \<Rightarrow> error + func list" where
  "same_trailing t [] = Inr []"
| "same_trailing t (i # is) =
     (if shape i = [] then Inl IndexError
      else (case same_trailing t is of
              Inl e \<Rightarrow> Inl e
            | Inr cs \<Rightarrow> Inr (if last (shape i) = t then i # cs else cs)))"

text \<open>The padded buffer of line 377.\<close>

definition padded :: "func \<Rightarrow> int \<Rightarrow> func" where
  "padded k simd_items =
     \<lparr> fname = ''p'' @ fname k, indices = indices k,
       shape = butlast (shape k) @ [roundm (last (shape k)) simd_items],
       mem_stack = mem_stack k, is_SymbolicData = False \<rparr>"

text \<open>
  Lines 348 to 381, the body of the loop over \<^verbatim>\<open>state.nodes\<close>: \<open>None\<close> when the
  tree is skipped (\<^verbatim>\<open>continue\<close>), otherwise the entries added to the mapper.
\<close>

definition padding_node :: "platform \<Rightarrow> node \<Rightarrow> error + (func \<times> func) list option" where
  "padding_node pf n =
    (let handle = FindSymbols_symbolics_writes n
     in if handle = [] then Inr None
        else
          let shp = max_by_len (shape (hd handle)) (map shape (tl handle))
          in if shp = [] then Inr None
             else (case same_trailing (last shp) handle of
                     Inl e \<Rightarrow> Inl e
                   | Inr candidates \<Rightarrow>
                      if candidates = [] then Inr None
                      else
                        let exprs = filter (\<lambda>e. output_function (expr e) \<in> set candidates)
                                      (FindNodes_Expression n)
                        in if \<not> length exprs > 0 then Inl AssertionError
                           else
                             let dt = e_dtype (hd exprs)
                             in if \<not> list_all (\<lambda>e. e_dtype e = dt) exprs then Inl AssertionError
                                else
                                  let simd_items =
                                        (case get_simd_items pf dt of
                                           Some w \<Rightarrow> w
                                         | None \<Rightarrow> simdinfo_avx512f pf div itemsize pf dt)
                                  in Inr (Some (map (\<lambda>k. (k, padded k simd_items)) candidates))))"

text \<open>
  The names that lines 353 to 364 give to their intermediate results: the shape of
  greatest rank, the candidates, and the expressions that write a candidate.
\<close>

definition widest :: "node \<Rightarrow> int list" where
  "widest n = max_by_len (shape (hd (FindSymbols_symbolics_writes n)))
                 (map shape (tl (FindSymbols_symbolics_writes n)))"

definition candidates_of :: "node \<Rightarrow> func list" where
  "candidates_of n =
     filter (\<lambda>f. last (shape f) = last (widest n)) (FindSymbols_symbolics_writes n)"

definition writers :: "node \<Rightarrow> node list" where
  "writers n =
     filter (\<lambda>e. output_function (expr e) \<in> set (candidates_of n)) (FindNodes_Expression n)"

text \<open>Lines 346 to 381: the mapper over all trees; the first error ends the pass.\<close>

fun padding_mapper ::
  "platform \<Rightarrow> (func \<times> func) list \<Rightarrow> node list \<Rightarrow> error + (func \<times> func) list" where
  "padding_mapper pf mapper [] = Inr mapper"
| "padding_mapper pf mapper (n # ns) =
    (case padding_node pf n of
       Inl e \<Rightarrow> Inl e
     | Inr None \<Rightarrow> padding_mapper pf mapper ns
     | Inr (Some kvs) \<Rightarrow> padding_mapper pf (dict_update mapper kvs) ns)"

text \<open>
  \<^verbatim>\<open>_padding\<close>, lines 346 to 394. \<^verbatim>\<open>SubstituteExpression\<close> and \<^verbatim>\<open>copy_arrays\<close> are
  not among the sources and are parameters.
\<close>

definition padding ::
  "platform \<Rightarrow> ((func \<times> func) list \<Rightarrow> node \<Rightarrow> node) \<Rightarrow> ((func \<times> func) list \<Rightarrow> bool \<Rightarrow> node list)
     \<Rightarrow> node list \<Rightarrow> error + node list" where
  "padding pf SubstituteExpression copy_arrays state_nodes =
    (case padding_mapper pf [] state_nodes of
       Inl e \<Rightarrow> Inl e
     | Inr mapper \<Rightarrow>
        (let processed = map (SubstituteExpression mapper) state_nodes;
             mapper' = filter (\<lambda>(k, v). is_SymbolicData k) mapper;
             init = copy_arrays mapper' True;
             copyback = copy_arrays mapper' False
         in Inr (init @ processed @ copyback)))"

section \<open>The custom rewriter\<close>

text \<open>
  The argument \<^verbatim>\<open>passes\<close> of \<^verbatim>\<open>DevitoCustomRewriter.__init__\<close>: a string, or any
  object without a \<^verbatim>\<open>split\<close> attribute (\<^verbatim>\<open>None\<close>, a number, a list).
\<close>

datatype passes_arg = PassesStr string | PassesNoSplit

text \<open>\<^verbatim>\<open>str.split(',')\<close>: the pieces between the commas, empty pieces included.\<close>

fun split :: "string \<Rightarrow> string list" where
  "split [] = [[]]"
| "split (c # cs) =
     (if c = CHR '','' then [] # split cs
      else (case split cs of [] \<Rightarrow> [[c]] | w # ws \<Rightarrow> (c # w) # ws))"

text \<open>The keys of \<^verbatim>\<open>passes_mapper\<close>, lines 433 to 437.\<close>

definition passes_mapper :: "string list" where
  "passes_mapper = [''fission'', ''padding'', ''split'']"

record custom_rewriter =
  rw_passes :: "string list"
  rw_nodes :: "node list"
  rw_params :: params

text \<open>
  \<^verbatim>\<open>DevitoCustomRewriter.__init__\<close>, lines 439 to 447. The constructor of the base
  class is not among the sources; it stores the nodes and the parameters.
\<close>

definition DevitoCustomRewriter_init ::
  "node list \<Rightarrow> passes_arg \<Rightarrow> params \<Rightarrow> error + custom_rewriter" where
  "DevitoCustomRewriter_init ns passes ps =
    (case passes of
       PassesNoSplit \<Rightarrow> Inl DLEException
     | PassesStr s \<Rightarrow>
        (let passes = split s
         in if \<not> list_all (\<lambda>i. i \<in> set passes_mapper) passes then Inl DLEException
            else Inr \<lparr> rw_passes = passes, rw_nodes = ns, rw_params = ps \<rparr>))"

section \<open>What a tree executes\<close>

text \<open>
  Modelled from the spec: the execution of a tree (\<^verbatim>\<open>Iteration\<close> of \<^verbatim>\<open>devito.nodes\<close>
  and the code emitter) is not among the sources. The spec describes an iteration node as "a loop
  over a dimension with (start, stop, step) limits" and "offsets", and a remainder loop as
  a "unit-step loop covering [inter-block end, original stop)": a loop runs its induction
  variable from \<open>start\<close> by \<open>step\<close> while it is below \<open>stop\<close>. The offsets shrink the
  range as the blocking pass itself reads them (lines 155 and 156): the first point is
  \<^verbatim>\<open>limits[0] - offsets[0]\<close>, the bound is \<^verbatim>\<open>limits[1] - offsets[1]\<close>.

  An environment binds the symbols: run-time sizes, and the induction variables of the
  enclosing loops. A symbol without a value, a remainder by zero, and a loop that never
  ends (a step that is not positive, below the bound) have no result.
\<close>

type_synonym env = "(string \<times> int) list"

fun eval :: "env \<Rightarrow> sexpr \<Rightarrow> int option" where
  "eval env (Num n) = Some n"
| "eval env (Sym x) = map_of env x"
| "eval env (Add a b) =
     (case (eval env a, eval env b) of (Some x, Some y) \<Rightarrow> Some (x + y) | _ \<Rightarrow> None)"
| "eval env (Sub a b) =
     (case (eval env a, eval env b) of (Some x, Some y) \<Rightarrow> Some (x - y) | _ \<Rightarrow> None)"
| "eval env (Mod a b) =
     (case (eval env a, eval env b) of
        (Some x, Some y) \<Rightarrow> if y = 0 then None else Some (x mod y)
      | _ \<Rightarrow> None)"

definition loop_values :: "int \<Rightarrow> int \<Rightarrow> int \<Rightarrow> int list option" where
  "loop_values start stop step =
    (if stop \<le> start then Some []
     else if step \<le> 0 then None
     else Some (map (\<lambda>k. start + int k * step) [0..<nat ((stop - start + step - 1) div step)]))"

text \<open>
  The trace of a tree: the environments in which a leaf expression is executed, in order.
\<close>

fun run :: "env \<Rightarrow> node \<Rightarrow> env list option"
  and run_seq :: "env \<Rightarrow> node list \<Rightarrow> env list option"
  and run_loop :: "env \<Rightarrow> string \<Rightarrow> node list \<Rightarrow> int list \<Rightarrow> env list option" where
  "run env (Expression e t) = Some [env]"
| "run env (Iteration ns d l off ps pr) =
     (case (eval env (fst l), eval env (fst (snd l)), eval env (snd (snd l))) of
        (Some a, Some b, Some s) \<Rightarrow>
          (case loop_values (a - fst off) (b - snd off) s of
             None \<Rightarrow> None
           | Some vs \<Rightarrow> run_loop env (dname d) ns vs)
      | _ \<Rightarrow> None)"
| "run env (List h b f) = run_seq env b"
| "run env (Block h b f) = run_seq env b"
| "run env Denormals = Some []"
| "run_seq env [] = Some []"
| "run_seq env (n # ns) =
     (case run env n of
        None \<Rightarrow> None
      | Some t \<Rightarrow> (case run_seq env ns of None \<Rightarrow> None | Some t' \<Rightarrow> Some (t @ t')))"
| "run_loop env x ns [] = Some []"
| "run_loop env x ns (v # vs) =
     (case run_seq ((x, v) # env) ns of
        None \<Rightarrow> None
      | Some t \<Rightarrow> (case run_loop env x ns vs of None \<Rightarrow> None | Some t' \<Rightarrow> Some (t @ t')))"

text \<open>The index point of an environment: the values of the given dimensions.\<close>

definition point :: "string list \<Rightarrow> env \<Rightarrow> int option list" where
  "point ds env = map (map_of env) ds"

definition points :: "string list \<Rightarrow> env \<Rightarrow> node \<Rightarrow> int option list list option" where
  "points ds env n = map_option (map (point ds)) (run env n)"

section \<open>Concrete trees\<close>

text \<open>
  The nest of the spec's scenario: three perfectly nested parallel loops over \<open>i\<close>
  (size 20), \<open>j\<close> (size 20) and \<open>k\<close> (size 4, vectorizable) around one statement.
\<close>

definition default_params :: params where
  "default_params = \<lparr> openmp = False, blockshape = BS_None, blockinner = None \<rparr>"


definition dim_i :: dimension where
  "dim_i = \<lparr> dname = ''i'', dsize = Some 20 \<rparr>"

definition dim_j :: dimension where
  "dim_j = \<lparr> dname = ''j'', dsize = Some 20 \<rparr>"

definition dim_k :: dimension where
  "dim_k = \<lparr> dname = ''k'', dsize = Some 4 \<rparr>"

definition fun_u :: func where
  "fun_u = \<lparr> fname = ''u'', indices = [dim_i, dim_j, dim_k], shape = [20, 20, 4],
             mem_stack = False, is_SymbolicData = True \<rparr>"

definition stmt_u :: node where
  "stmt_u = Expression \<lparr> text_of = ''u[i,j,k] + 1'', e_functions = [fun_u],
                          output_function = fun_u \<rparr> Float32"

definition loop_k :: node where
  "loop_k = Iteration [stmt_u] dim_k (Num 0, Num 4, Num 1) (0, 0) [PARALLEL, VECTORIZABLE] []"

definition loop_j :: node where
  "loop_j = Iteration [loop_k] dim_j (Num 0, Num 20, Num 1) (0, 0) [PARALLEL] []"

definition loop_i :: node where
  "loop_i = Iteration [loop_j] dim_i (Num 0, Num 20, Num 1) (0, 0) [PARALLEL] []"

text \<open>
  A single perfect nest holds nothing to fold: on the trees above, folding and unfolding
  leave the tree as it is.
\<close>

definition fold_nothing :: "node \<Rightarrow> bool \<Rightarrow> node" where
  "fold_nothing n exclude_innermost = n"

definition unfold_nothing :: "node \<Rightarrow> node" where
  "unfold_nothing n = n"

text \<open>The block sizes and the diagnostics of a result of the blocking pass.\<close>

definition block_sizes :: "error + pass_result \<Rightarrow> error + block_value list" where
  "block_sizes r = (case r of Inl e \<Rightarrow> Inl e | Inr p \<Rightarrow> Inr (map arg_value (res_arguments p)))"

definition diagnostics :: "error + pass_result \<Rightarrow> error + string list" where
  "diagnostics r = (case r of Inl e \<Rightarrow> Inl e | Inr p \<Rightarrow> Inr (res_warnings p))"


text \<open>
  The tree that blocking makes of the nest above: the blocked tree followed by the
  remainder trees of \<open>{i}\<close>, \<open>{j}\<close> and \<open>{i, j}\<close>.
\<close>

definition blocked_ij :: node where
  "blocked_ij = hd (snd (block_trees fold_nothing unfold_nothing True [] [loop_i]))"

text \<open>
  Two-dimensional arrays over \<open>x\<close> and \<open>y\<close>: \<open>a\<close> and \<open>b\<close> share the trailing
  dimension \<open>y\<close> but not the trailing extent (\<open>a\<close> is a padded buffer), \<open>c\<close> is
  transposed. The thresholds are small enough for a body of two statements.
\<close>

definition small_thresholds :: thresholds where
  "small_thresholds = \<lparr> collapse = 32, max_fission = 2, min_fission = 1 \<rparr>"

definition promote_nothing :: "rhs list \<Rightarrow> int \<Rightarrow> dimension \<Rightarrow> rhs list" where
  "promote_nothing wrapped sz d = wrapped"

definition dim_x :: dimension where
  "dim_x = \<lparr> dname = ''x'', dsize = Some 20 \<rparr>"

definition dim_y :: dimension where
  "dim_y = \<lparr> dname = ''y'', dsize = Some 20 \<rparr>"

definition fun_a :: func where
  "fun_a = \<lparr> fname = ''a'', indices = [dim_x, dim_y], shape = [20, 32],
             mem_stack = False, is_SymbolicData = False \<rparr>"

definition fun_b :: func where
  "fun_b = \<lparr> fname = ''b'', indices = [dim_x, dim_y], shape = [20, 20],
             mem_stack = False, is_SymbolicData = True \<rparr>"

definition fun_c :: func where
  "fun_c = \<lparr> fname = ''c'', indices = [dim_y, dim_x], shape = [20, 20],
             mem_stack = False, is_SymbolicData = True \<rparr>"

definition stmt_a :: node where
  "stmt_a = Expression \<lparr> text_of = ''a[x,y] = b[x,y] + 1'', e_functions = [fun_a, fun_b],
                          output_function = fun_a \<rparr> Float32"

definition stmt_b :: node where
  "stmt_b = Expression \<lparr> text_of = ''b[x,y] = 2*a[x,y]'', e_functions = [fun_b, fun_a],
                          output_function = fun_b \<rparr> Float32"

definition stmt_c :: node where
  "stmt_c = Expression \<lparr> text_of = ''b[x,y] = c[y,x]'', e_functions = [fun_b, fun_c],
                          output_function = fun_b \<rparr> Float32"

definition inner_ab :: node where
  "inner_ab = Iteration [stmt_a, stmt_b] dim_y (Num 0, Num 20, Num 1) (0, 0) [PARALLEL] []"

definition outer_ab :: node where
  "outer_ab = Iteration [inner_ab] dim_x (Num 0, Num 20, Num 1) (0, 0) [PARALLEL] []"

definition inner_bc :: node where
  "inner_bc = Iteration [stmt_b, stmt_c] dim_y (Num 0, Num 20, Num 1) (0, 0) [PARALLEL] []"

definition outer_bc :: node where
  "outer_bc = Iteration [inner_bc] dim_x (Num 0, Num 20, Num 1) (0, 0) [PARALLEL] []"

text \<open>
  A nest whose two statements write arrays of the same shape with different dtypes, and
  the capabilities of an AVX512 target. The substitution and copy helpers of the padding
  pass are not among the sources; the stand-ins below do nothing.
\<close>

definition stmt_c64 :: node where
  "stmt_c64 = Expression \<lparr> text_of = ''c[y,x] = b[x,y]'', e_functions = [fun_c, fun_b],
                            output_function = fun_c \<rparr> Float64"

definition mixed_dtypes :: node where
  "mixed_dtypes =
     Iteration [Iteration [stmt_b, stmt_c64] dim_y (Num 0, Num 20, Num 1) (0, 0) [PARALLEL] []]
       dim_x (Num 0, Num 20, Num 1) (0, 0) [PARALLEL] []"

definition avx512 :: platform where
  "avx512 = \<lparr> get_simd_items = (\<lambda>t. case t of Float32 \<Rightarrow> Some 16 | Float64 \<Rightarrow> Some 8
                                         | Int32 \<Rightarrow> Some 16 | OtherType s \<Rightarrow> None),
              simdinfo_avx512f = 64,
              itemsize = (\<lambda>t. case t of Float64 \<Rightarrow> 8 | _ \<Rightarrow> 4) \<rparr>"

definition substitute_nothing :: "(func \<times> func) list \<Rightarrow> node \<Rightarrow> node" where
  "substitute_nothing m n = n"

definition copy_nothing :: "(func \<times> func) list \<Rightarrow> bool \<Rightarrow> node list" where
  "copy_nothing m reverse = []"

text \<open>
  One-dimensional loops over \<open>x\<close> (size 20): a forward difference, whose accesses give
  the offsets \<open>(0, 1)\<close>, and a centred difference with the offsets \<open>(-1, 1)\<close>; the
  trees that blocking makes of them; a block size of 8, which is what the heuristic
  chooses for 20 points; and the index points from \<open>a\<close> to \<open>b\<close>.
\<close>

definition fun_v :: func where
  "fun_v = \<lparr> fname = ''v'', indices = [dim_x], shape = [20],
             mem_stack = False, is_SymbolicData = True \<rparr>"

definition fun_w :: func where
  "fun_w = \<lparr> fname = ''w'', indices = [dim_x], shape = [20],
             mem_stack = False, is_SymbolicData = True \<rparr>"

definition stmt_forward :: node where
  "stmt_forward = Expression \<lparr> text_of = ''w[x] = v[x+1] - v[x]'', e_functions = [fun_w, fun_v],
                                output_function = fun_w \<rparr> Float32"

definition forward_loop :: node where
  "forward_loop = Iteration [stmt_forward] dim_x (Num 0, Num 20, Num 1) (0, 1) [PARALLEL] []"

definition blocked_forward :: node where
  "blocked_forward = hd (snd (block_trees fold_nothing unfold_nothing True [] [forward_loop]))"

definition stmt_centred :: node where
  "stmt_centred = Expression \<lparr> text_of = ''w[x] = v[x+1] - v[x-1]'', e_functions = [fun_w, fun_v],
                                output_function = fun_w \<rparr> Float32"

definition centred_loop :: node where
  "centred_loop = Iteration [stmt_centred] dim_x (Num 0, Num 20, Num 1) (- 1, 1) [PARALLEL] []"

definition blocked_centred :: node where
  "blocked_centred = hd (snd (block_trees fold_nothing unfold_nothing True [] [centred_loop]))"

definition line :: "int \<Rightarrow> int \<Rightarrow> int option list list" where
  "line a b = map (\<lambda>v. [Some v]) [a..b]"

definition block_of_8 :: env where
  "block_of_8 = [(''x_block_size'', 8)]"

section \<open>Properties\<close>

subsection \<open>The custom rewriter\<close>

text \<open>
  Claim C9. Constructing the custom rewriter with a \<^verbatim>\<open>passes\<close> argument that cannot be
  split (it is not a string), or whose comma-separated list names a pass outside the
  registry, ends in \<^verbatim>\<open>DLEException\<close>: no rewriter object exists, so no pass can run
  and no tree is touched. Only a list of registered names yields a rewriter, which then
  holds the nodes as they were given.
\<close>

theorem custom_rewriter_rejects_unknown_passes:
  "DevitoCustomRewriter_init ns PassesNoSplit ps = Inl DLEException \<and>
   ((\<exists>i \<in> set (split s). i \<notin> set passes_mapper) \<longrightarrow>
      DevitoCustomRewriter_init ns (PassesStr s) ps = Inl DLEException) \<and>
   ((\<forall>i \<in> set (split s). i \<in> set passes_mapper) \<longrightarrow>
      DevitoCustomRewriter_init ns (PassesStr s) ps =
        Inr \<lparr> rw_passes = split s, rw_nodes = ns, rw_params = ps \<rparr>)"
  by (auto simp: DevitoCustomRewriter_init_def Let_def list_all_iff)

theorem custom_rewriter_rejects_unknown_passes_witness:
  "(\<exists>i \<in> set (split ''fission,bogus''). i \<notin> set passes_mapper) \<and>
   DevitoCustomRewriter_init [loop_i] (PassesStr ''fission,bogus'') default_params =
     Inl DLEException \<and>
   list_all (\<lambda>i. i \<in> set passes_mapper) (split ''fission,padding'') \<and>
   DevitoCustomRewriter_init [loop_i] (PassesStr ''fission,padding'') default_params =
     Inr \<lparr> rw_passes = [''fission'', ''padding''], rw_nodes = [loop_i],
           rw_params = default_params \<rparr>"
proof -
  have bad: "\<exists>i \<in> set (split ''fission,bogus''). i \<notin> set passes_mapper"
    by (simp add: passes_mapper_def)
  have good: "\<forall>i \<in> set (split ''fission,padding''). i \<in> set passes_mapper"
    by (simp add: passes_mapper_def)
  have s: "split ''fission,padding'' = [''fission'', ''padding'']"
    by simp
  from custom_rewriter_rejects_unknown_passes [of "[loop_i]" default_params "''fission,bogus''"]
    custom_rewriter_rejects_unknown_passes [of "[loop_i]" default_params "''fission,padding''"]
    bad good s
  show ?thesis unfolding list_all_iff by metis
qed

subsection \<open>OpenMP decoration: collapse\<close>



subsection \<open>Loop blocking: the block shape\<close>

text \<open>Dictionaries with distinct keys are the lists of their items.\<close>

lemma update_fresh: "k \<notin> fst ` set al \<Longrightarrow> AList.update k v al = al @ [(k, v)]"
  by (induction al) auto

lemma fold_update_distinct:
  "distinct (map fst (acc @ kvs)) \<Longrightarrow>
   fold (\<lambda>(k, v) m. AList.update k v m) kvs acc = acc @ kvs"
proof (induction kvs arbitrary: acc)
  case Nil
  then show ?case by simp
next
  case (Cons kv kvs)
  obtain k v where kv: "kv = (k, v)" by (cases kv)
  from Cons.prems kv have fresh: "k \<notin> fst ` set acc" by auto
  from Cons.prems kv have d: "distinct (map fst ((acc @ [(k, v)]) @ kvs))" by auto
  show ?case using Cons.IH [OF d] fresh kv by (simp add: update_fresh)
qed


lemma dict_update_distinct:
  "distinct (map fst (d @ other)) \<Longrightarrow> dict_update d other = d @ other"
  using fold_update_distinct [of d other] by (simp add: dict_update_def)

lemma blocking_args_total:
  "(\<And>k. k \<in> fst ` set blocked \<Longrightarrow> map_of bshape k = Some (f k)) \<Longrightarrow>
   blocking_args bshape blocked =
     Inr (map (\<lambda>(k, d). \<lparr> blocked_dim = d, iteration = k, arg_value = f k \<rparr>) blocked)"
  by (induction blocked) (auto simp: image_iff)






lemma blocking_args_zip:
  assumes "distinct (map fst blocked)" "length vs = length blocked"
  shows "blocking_args (zip (map fst blocked) vs) blocked =
     Inr (map (\<lambda>((k, d), v). \<lparr> blocked_dim = d, iteration = k, arg_value = v \<rparr>) (zip blocked vs))"
proof -
  let ?f = "\<lambda>k. the (map_of (zip (map fst blocked) vs) k)"
  have tot: "\<And>k. k \<in> fst ` set blocked \<Longrightarrow> map_of (zip (map fst blocked) vs) k = Some (?f k)"
  proof -
    fix k assume "k \<in> fst ` set blocked"
    then have "k \<in> set (map fst blocked)" by simp
    then have "k \<in> dom (map_of (zip (map fst blocked) vs))"
      using assms(2) by (simp add: dom_map_of_zip)
    then show "map_of (zip (map fst blocked) vs) k = Some (?f k)" by auto
  qed
  have "map (\<lambda>(k, d). \<lparr> blocked_dim = d, iteration = k, arg_value = ?f k \<rparr>) blocked
      = map (\<lambda>((k, d), v). \<lparr> blocked_dim = d, iteration = k, arg_value = v \<rparr>) (zip blocked vs)"
  proof (rule nth_equalityI)
    show "length (map (\<lambda>(k, d). \<lparr> blocked_dim = d, iteration = k, arg_value = ?f k \<rparr>) blocked)
        = length (map (\<lambda>((k, d), v). \<lparr> blocked_dim = d, iteration = k, arg_value = v \<rparr>) (zip blocked vs))"
      using assms(2) by simp
  next
    fix j assume "j < length (map (\<lambda>(k, d). \<lparr> blocked_dim = d, iteration = k, arg_value = ?f k \<rparr>) blocked)"
    then have j: "j < length blocked" by simp
    have "map_of (zip (map fst blocked) vs) (map fst blocked ! j) = Some (vs ! j)"
      using assms j by (intro map_of_zip_nth) auto
    then have "?f (fst (blocked ! j)) = vs ! j" using j by simp
    then show "map (\<lambda>(k, d). \<lparr> blocked_dim = d, iteration = k, arg_value = ?f k \<rparr>) blocked ! j
        = map (\<lambda>((k, d), v). \<lparr> blocked_dim = d, iteration = k, arg_value = v \<rparr>) (zip blocked vs) ! j"
      using j assms(2) by (simp add: case_prod_beta)
  qed
  with blocking_args_total [of blocked "zip (map fst blocked) vs" ?f, OF tot] show ?thesis by simp
qed

lemma setdefault_distinct:
  "distinct (map fst m) \<Longrightarrow> distinct (map fst (snd (setdefault m k d)))"
  by (auto simp: setdefault_def map_of_eq_None_iff split: option.splits)

lemma build_blocks_distinct:
  "distinct (map fst blocked) \<Longrightarrow> distinct (map fst (snd (build_blocks blocked tag its)))"
proof (induction its arbitrary: blocked)
  case Nil
  then show ?case by simp
next
  case (Cons i its)
  from setdefault_distinct [OF Cons.prems, of i "block_dimension i"]
  have "distinct (map fst (snd (build_blocks (snd (setdefault blocked i (block_dimension i))) tag its)))"
    by (rule Cons.IH)
  then show ?case by (simp add: case_prod_beta Let_def)
qed

lemma block_nest_distinct:
  "distinct (map fst blocked) \<Longrightarrow>
   distinct (map fst (fst (block_nest exclude_innermost blocked mapper tree)))"
  using build_blocks_distinct [of blocked]
  by (simp add: block_nest_def Let_def case_prod_beta)

lemma block_nests_distinct:
  "distinct (map fst blocked) \<Longrightarrow>
   distinct (map fst (fst (block_nests exclude_innermost blocked mapper trees)))"
proof (induction trees arbitrary: blocked mapper)
  case Nil
  then show ?case by simp
next
  case (Cons t ts)
  from block_nest_distinct [OF Cons.prems]
  have "distinct (map fst (fst (block_nest exclude_innermost blocked mapper t)))" .
  from Cons.IH [OF this] show ?case by (simp add: case_prod_beta)
qed

lemma block_trees_distinct:
  "distinct (map fst blocked) \<Longrightarrow>
   distinct (map fst (fst (block_trees fold_tree unfold_tree exclude_innermost blocked ns)))"
proof (induction ns arbitrary: blocked)
  case Nil
  then show ?case by simp
next
  case (Cons n ns)
  from block_nests_distinct [OF Cons.prems]
  have "distinct (map fst (fst (block_nests exclude_innermost blocked []
          (retrieve_iteration_tree (fold_tree n exclude_innermost)))))" .
  from Cons.IH [OF this] show ?case by (simp add: case_prod_beta Let_def)
qed


lemma finish_blocking_scalar:
  assumes "n \<noteq> 0" "blocked \<noteq> []" "distinct (map fst blocked)"
  shows "finish_blocking (BS_Scalar n) blocked processed =
    Inr \<lparr> res_nodes = processed,
          res_arguments =
            map (\<lambda>((k, d), v). \<lparr> blocked_dim = d, iteration = k, arg_value = v \<rparr>)
              (zip blocked (Value n # replicate (length blocked - 1) Unset)),
          res_flags = [''blocking''],
          res_warnings = [] \<rparr>"
proof -
  obtain k d rest where b: "blocked = (k, d) # rest"
    using assms(2) by (cases blocked) auto
  have f: "filter (\<lambda>k'. k' \<noteq> k) (map fst rest) = map fst rest"
    using assms(3) b by (auto simp: filter_id_conv)
  have dd: "distinct (map fst ([(k, Value n)] @ map (\<lambda>k. (k, Unset)) (map fst rest)))"
    using assms(3) b by (simp add: comp_def)
  have r: "resolve_blockshape (BS_Scalar n) blocked =
      Inr (zip (map fst blocked) (Value n # replicate (length blocked - 1) Unset), [])"
    using assms(1) b f dict_update_distinct [OF dd]
    by (simp add: resolve_blockshape_def zip_replicate2 comp_def cong: filter_cong)
  have a: "blocking_args (zip (map fst blocked) (Value n # replicate (length blocked - 1) Unset)) blocked =
     Inr (map (\<lambda>((k, d), v). \<lparr> blocked_dim = d, iteration = k, arg_value = v \<rparr>)
            (zip blocked (Value n # replicate (length blocked - 1) Unset)))"
    using b by (intro blocking_args_zip [OF assms(3)]) simp
  show ?thesis using assms(2) r a by (simp add: finish_blocking_def)
qed


lemma blocked_loop_i:
  "fst (block_trees fold_nothing unfold_nothing True [] [loop_i]) =
     [(loop_i, block_dimension loop_i), (loop_j, block_dimension loop_j)]"
  by code_simp



text \<open>
  Claim C10, as the code has it. A block shape without a length that is not zero is the
  block size of the first blocked dimension; every other blocked dimension receives
  \<^verbatim>\<open>None\<close>, and there is no diagnostic.
\<close>

theorem blockshape_scalar:
  assumes "block_trees fold_tree unfold_tree (exclude_innermost_of ps) [] state_nodes = (blocked, processed)"
    and "blocked \<noteq> []"
    and "blockshape ps = BS_Scalar n" and "n \<noteq> 0"
  shows "loop_blocking fold_tree unfold_tree ps state_nodes =
    Inr \<lparr> res_nodes = processed,
          res_arguments =
            map (\<lambda>((k, d), v). \<lparr> blocked_dim = d, iteration = k, arg_value = v \<rparr>)
              (zip blocked (Value n # replicate (length blocked - 1) Unset)),
          res_flags = [''blocking''],
          res_warnings = [] \<rparr>"
proof -
  have d: "distinct (map fst blocked)"
    using block_trees_distinct [of "[]" fold_tree unfold_tree "exclude_innermost_of ps" state_nodes]
      assms(1)
    by simp
  show ?thesis
    using finish_blocking_scalar [OF assms(4,2) d] assms(1,3)
    by (simp add: loop_blocking_def exclude_innermost_of_def)
qed

theorem blockshape_scalar_witness:
  "fst (block_trees fold_nothing unfold_nothing True [] [loop_i]) \<noteq> [] \<and>
   block_sizes (loop_blocking fold_nothing unfold_nothing
      (default_params \<lparr> blockshape := BS_Scalar 16 \<rparr>) [loop_i]) = Inr [Value 16, Unset] \<and>
   diagnostics (loop_blocking fold_nothing unfold_nothing
      (default_params \<lparr> blockshape := BS_Scalar 16 \<rparr>) [loop_i]) = Inr []"
proof -
  let ?ps = "default_params \<lparr> blockshape := BS_Scalar 16 \<rparr>"
  let ?bt = "block_trees fold_nothing unfold_nothing True [] [loop_i]"
  have e: "exclude_innermost_of ?ps = True"
    by (simp add: exclude_innermost_of_def default_params_def)
  have h1: "block_trees fold_nothing unfold_nothing (exclude_innermost_of ?ps) [] [loop_i]
      = (fst ?bt, snd ?bt)"
    by (simp add: e)
  have h2: "fst ?bt \<noteq> []" unfolding blocked_loop_i by simp
  have h3: "blockshape ?ps = BS_Scalar 16" by simp
  have h4: "(16::int) \<noteq> 0" by simp
  from blockshape_scalar [OF h1 h2 h3 h4] h2
  show ?thesis unfolding blocked_loop_i by (simp add: block_sizes_def diagnostics_def)
qed

text \<open>
  Claim C10 as stated fails for the scalar \<^verbatim>\<open>0\<close>, which has no length but is falsy:
  line 211 takes it for an absent block shape, and every blocked dimension receives the
  heuristic.
\<close>

theorem blockshape_scalar_counterexample:
  "block_sizes (loop_blocking fold_nothing unfold_nothing
      (default_params \<lparr> blockshape := BS_Scalar 0 \<rparr>) [loop_i]) = Inr [Heuristic, Heuristic]"
  by code_simp


subsection \<open>OpenMP decoration: the parallel region\<close>















subsection \<open>Loop fission\<close>

lemma any_differs_False:
  "any_differs d fs = Inr False \<Longrightarrow> \<forall>f \<in> set fs. last (indices f) = d"
  by (induction fs) (auto split: if_splits)

lemma any_differs_total:
  "\<forall>f \<in> set fs. indices f \<noteq> [] \<Longrightarrow>
   any_differs d fs = Inr (\<exists>f \<in> set fs. d \<noteq> last (indices f))"
  by (induction fs) auto

text \<open>
  Claim C5, as the code has it. A candidate is transformed only if all functions
  referenced by its expressions share the same trailing dimension; a candidate whose
  functions have mixed trailing dimensions is skipped. Trailing extents are not compared.
\<close>

theorem fission_same_trailing_dimension:
  "(fission_nest ths promote tree = Inr (Some kv) \<longrightarrow>
      fst kv = last tree \<and>
      (\<forall>f \<in> set (referenced tree). \<forall>g \<in> set (referenced tree).
          last (indices f) = last (indices g))) \<and>
   ((\<forall>f \<in> set (referenced tree). indices f \<noteq> [] \<and> shape f \<noteq> []) \<and>
    (\<exists>f \<in> set (referenced tree). \<exists>g \<in> set (referenced tree).
          last (indices f) \<noteq> last (indices g)) \<longrightarrow>
      fission_nest ths promote tree = Inr None)"
proof (intro conjI impI)
  assume a: "fission_nest ths promote tree = Inr (Some kv)"
  then have "any_differs (last (indices (hd (referenced tree)))) (referenced tree) = Inr False"
    by (auto simp: fission_nest_def Let_def referenced_def split: if_splits sum.splits bool.splits)
  from any_differs_False [OF this]
  show "\<forall>f \<in> set (referenced tree). \<forall>g \<in> set (referenced tree).
          last (indices f) = last (indices g)"
    by simp
  from a show "fst kv = last tree"
    by (auto simp: fission_nest_def Let_def split: if_splits sum.splits bool.splits)
next
  assume b: "(\<forall>f \<in> set (referenced tree). indices f \<noteq> [] \<and> shape f \<noteq> []) \<and>
    (\<exists>f \<in> set (referenced tree). \<exists>g \<in> set (referenced tree).
          last (indices f) \<noteq> last (indices g))"
  then have ne: "referenced tree \<noteq> []" by auto
  then have h: "hd (referenced tree) \<in> set (referenced tree)" by simp
  from b have "\<exists>f \<in> set (referenced tree).
      last (indices (hd (referenced tree))) \<noteq> last (indices f)"
    by metis
  with b any_differs_total [of "referenced tree" "last (indices (hd (referenced tree)))"]
  have d: "any_differs (last (indices (hd (referenced tree)))) (referenced tree) = Inr True"
    by simp
  have e: "filter is_Expression (nodes (last tree)) \<noteq> []"
    using ne by (auto simp: referenced_def filter_empty_conv)
  show "fission_nest ths promote tree = Inr None"
    using b h d e ne
    by (auto simp: fission_nest_def Let_def referenced_def [symmetric])
qed


lemma referenced_ab: "referenced [outer_ab, inner_ab] = [fun_b, fun_a]"
  by code_simp

lemma referenced_bc: "referenced [outer_bc, inner_bc] = [fun_a, fun_b, fun_c]"
  by code_simp

lemma fission_ab: "fission_nest small_thresholds promote_nothing [outer_ab, inner_ab] =
     Inr (Some (inner_ab,
       List [] [Iteration [stmt_a] dim_y (Num 0, Num 20, Num 1) (0, 0) [PARALLEL, ELEMENTAL] [],
                Iteration [stmt_b] dim_y (Num 0, Num 20, Num 1) (0, 0) [PARALLEL, ELEMENTAL] []] []))"
  by code_simp

theorem fission_same_trailing_dimension_witness:
  "last (indices fun_a) = last (indices fun_b) \<and>
   last (indices fun_b) \<noteq> last (indices fun_c) \<and>
   list_all (\<lambda>f. indices f \<noteq> [] \<and> shape f \<noteq> []) (referenced [outer_bc, inner_bc]) \<and>
   fission_nest small_thresholds promote_nothing [outer_bc, inner_bc] = Inr None"
proof -
  have ne: "\<forall>f \<in> set (referenced [outer_bc, inner_bc]). indices f \<noteq> [] \<and> shape f \<noteq> []"
    unfolding referenced_bc by (simp add: fun_a_def fun_b_def fun_c_def)
  have bc: "last (indices fun_b) \<noteq> last (indices fun_c)"
    by (simp add: fun_b_def fun_c_def dim_x_def dim_y_def)
  have mixed: "\<exists>f \<in> set (referenced [outer_bc, inner_bc]).
      \<exists>g \<in> set (referenced [outer_bc, inner_bc]). last (indices f) \<noteq> last (indices g)"
    unfolding referenced_bc using bc by auto
  have "\<forall>f \<in> set (referenced [outer_ab, inner_ab]).
      \<forall>g \<in> set (referenced [outer_ab, inner_ab]). last (indices f) = last (indices g)"
    using fission_same_trailing_dimension [of small_thresholds promote_nothing
        "[outer_ab, inner_ab]"] fission_ab
    by blast
  then have "\<forall>f \<in> set [fun_b, fun_a]. \<forall>g \<in> set [fun_b, fun_a].
      last (indices f) = last (indices g)"
    by (simp only: referenced_ab)
  moreover have "fun_a \<in> set [fun_b, fun_a]" and "fun_b \<in> set [fun_b, fun_a]"
    by simp_all
  ultimately have ab: "last (indices fun_a) = last (indices fun_b)"
    by blast
  from fission_same_trailing_dimension [of small_thresholds promote_nothing "[outer_bc, inner_bc]"]
    ne mixed
  have "fission_nest small_thresholds promote_nothing [outer_bc, inner_bc] = Inr None"
    by blast
  with ab bc ne show ?thesis unfolding list_all_iff by blast
qed

text \<open>
  Claim C5 as stated fails: \<open>a\<close> and \<open>b\<close> have the trailing extents 32 and 20, and
  the candidate is fissioned all the same, since both end in the dimension \<open>y\<close>.
\<close>

theorem fission_mixed_extents_counterexample:
  "map (\<lambda>f. last (shape f)) (referenced [outer_ab, inner_ab]) = [20, 32] \<and>
   fission_nest small_thresholds promote_nothing [outer_ab, inner_ab] =
     Inr (Some (inner_ab,
       List [] [Iteration [stmt_a] dim_y (Num 0, Num 20, Num 1) (0, 0) [PARALLEL, ELEMENTAL] [],
                Iteration [stmt_b] dim_y (Num 0, Num 20, Num 1) (0, 0) [PARALLEL, ELEMENTAL] []] []))"
  by code_simp

subsection \<open>Padding\<close>

lemma same_trailing_total:
  "\<forall>f \<in> set fs. shape f \<noteq> [] \<Longrightarrow>
   same_trailing t fs = Inr (filter (\<lambda>f. last (shape f) = t) fs)"
  by (induction fs) auto

lemma max_by_len_mem: "max_by_len b xs \<in> set (b # xs)"
  by (induction xs arbitrary: b) auto

lemma widest_mem:
  "FindSymbols_symbolics_writes n \<noteq> [] \<Longrightarrow>
   \<exists>f \<in> set (FindSymbols_symbolics_writes n). shape f = widest n"
proof -
  assume ne: "FindSymbols_symbolics_writes n \<noteq> []"
  let ?h = "FindSymbols_symbolics_writes n"
  have "widest n \<in> set (shape (hd ?h) # map shape (tl ?h))"
    unfolding widest_def by (rule max_by_len_mem)
  also have "shape (hd ?h) # map shape (tl ?h) = map shape ?h"
    using ne by (cases ?h) auto
  finally show ?thesis by auto
qed

lemma writers_nonempty:
  assumes "FindSymbols_symbolics_writes n \<noteq> []"
  shows "candidates_of n \<noteq> [] \<and> writers n \<noteq> []"
proof -
  from widest_mem [OF assms] obtain f where
    f: "f \<in> set (FindSymbols_symbolics_writes n)" "shape f = widest n" by blast
  then have c: "f \<in> set (candidates_of n)" by (simp add: candidates_of_def)
  from f(1) obtain e where e: "e \<in> set (FindNodes_Expression n)" "output_function (expr e) = f"
    by (auto simp: FindSymbols_symbolics_writes_def)
  with c have "e \<in> set (writers n)" by (simp add: writers_def)
  with c show ?thesis by auto
qed

text \<open>
  Claim C6, as the code has it. The padding pass skips a tree in which no symbol is
  written. For a tree whose written symbols all have a shape, it raises an
  \<^verbatim>\<open>AssertionError\<close> exactly when the expressions that write the padding candidates
  differ in dtype, and completes otherwise; some expression always writes a candidate.
\<close>

theorem padding_raises_on_mixed_dtypes:
  "(FindSymbols_symbolics_writes n = [] \<longrightarrow> padding_node pf n = Inr None) \<and>
   (FindSymbols_symbolics_writes n \<noteq> [] \<and>
    (\<forall>f \<in> set (FindSymbols_symbolics_writes n). shape f \<noteq> []) \<longrightarrow>
      (if \<exists>e \<in> set (writers n). e_dtype e \<noteq> e_dtype (hd (writers n))
       then padding_node pf n = Inl AssertionError
       else \<exists>m. padding_node pf n = Inr (Some m) \<and> map fst m = candidates_of n))"
proof (intro conjI impI)
  assume "FindSymbols_symbolics_writes n = []"
  then show "padding_node pf n = Inr None" by (simp add: padding_node_def)
next
  assume a: "FindSymbols_symbolics_writes n \<noteq> [] \<and>
    (\<forall>f \<in> set (FindSymbols_symbolics_writes n). shape f \<noteq> [])"
  from widest_mem a have w: "widest n \<noteq> []" by metis
  from a have st: "same_trailing (last (widest n)) (FindSymbols_symbolics_writes n)
      = Inr (candidates_of n)"
    by (simp add: same_trailing_total candidates_of_def)
  from a writers_nonempty have ne: "candidates_of n \<noteq> []" "writers n \<noteq> []" by auto
  have eq: "padding_node pf n =
      (if \<not> list_all (\<lambda>e. e_dtype e = e_dtype (hd (writers n))) (writers n)
       then Inl AssertionError
       else Inr (Some (map (\<lambda>k. (k, padded k
              (case get_simd_items pf (e_dtype (hd (writers n))) of
                 Some w \<Rightarrow> w
               | None \<Rightarrow> simdinfo_avx512f pf div itemsize pf (e_dtype (hd (writers n))))))
             (candidates_of n))))"
    unfolding padding_node_def Let_def widest_def [symmetric] st sum.case writers_def [symmetric]
    using a w ne by simp
  show "if \<exists>e \<in> set (writers n). e_dtype e \<noteq> e_dtype (hd (writers n))
       then padding_node pf n = Inl AssertionError
       else \<exists>m. padding_node pf n = Inr (Some m) \<and> map fst m = candidates_of n"
    unfolding eq by (simp add: list_all_iff comp_def)
qed


lemma writes_mixed: "FindSymbols_symbolics_writes mixed_dtypes = [fun_b, fun_c]"
  by code_simp

lemma writers_mixed: "writers mixed_dtypes = [stmt_b, stmt_c64]"
  by code_simp

lemma writes_loop_i: "FindSymbols_symbolics_writes loop_i = [fun_u]"
  by code_simp

lemma writers_loop_i: "writers loop_i = [stmt_u]"
  by code_simp

lemma candidates_loop_i: "candidates_of loop_i = [fun_u]"
  by code_simp

theorem padding_raises_on_mixed_dtypes_witness:
  "FindSymbols_symbolics_writes Denormals = [] \<and> padding_node avx512 Denormals = Inr None \<and>
   FindSymbols_symbolics_writes mixed_dtypes \<noteq> [] \<and>
   list_all (\<lambda>f. shape f \<noteq> []) (FindSymbols_symbolics_writes mixed_dtypes) \<and>
   (\<exists>e \<in> set (writers mixed_dtypes). e_dtype e \<noteq> e_dtype (hd (writers mixed_dtypes))) \<and>
   padding_node avx512 mixed_dtypes = Inl AssertionError \<and>
   FindSymbols_symbolics_writes loop_i \<noteq> [] \<and>
   list_all (\<lambda>f. shape f \<noteq> []) (FindSymbols_symbolics_writes loop_i) \<and>
   \<not> (\<exists>e \<in> set (writers loop_i). e_dtype e \<noteq> e_dtype (hd (writers loop_i))) \<and>
   map fst (case padding_node avx512 loop_i of Inr (Some m) \<Rightarrow> m | _ \<Rightarrow> []) = [fun_u]"
proof -
  have d0: "FindSymbols_symbolics_writes Denormals = []"
    by (simp add: FindSymbols_symbolics_writes_def)
  have m1: "FindSymbols_symbolics_writes mixed_dtypes \<noteq> []"
    unfolding writes_mixed by simp
  have m2: "\<forall>f \<in> set (FindSymbols_symbolics_writes mixed_dtypes). shape f \<noteq> []"
    unfolding writes_mixed by (simp add: fun_b_def fun_c_def)
  have m3: "\<exists>e \<in> set (writers mixed_dtypes). e_dtype e \<noteq> e_dtype (hd (writers mixed_dtypes))"
    unfolding writers_mixed by (simp add: stmt_b_def stmt_c64_def)
  have l1: "FindSymbols_symbolics_writes loop_i \<noteq> []"
    unfolding writes_loop_i by simp
  have l2: "\<forall>f \<in> set (FindSymbols_symbolics_writes loop_i). shape f \<noteq> []"
    unfolding writes_loop_i by (simp add: fun_u_def)
  have l3: "\<not> (\<exists>e \<in> set (writers loop_i). e_dtype e \<noteq> e_dtype (hd (writers loop_i)))"
    unfolding writers_loop_i by simp
  have r0: "padding_node avx512 Denormals = Inr None"
    using padding_raises_on_mixed_dtypes [of Denormals avx512] d0 by blast
  have r1: "padding_node avx512 mixed_dtypes = Inl AssertionError"
    using padding_raises_on_mixed_dtypes [of mixed_dtypes avx512] m1 m2 m3 by presburger
  have "\<exists>m. padding_node avx512 loop_i = Inr (Some m) \<and> map fst m = candidates_of loop_i"
    using padding_raises_on_mixed_dtypes [of loop_i avx512] l1 l2 l3 by presburger
  then have r2: "map fst (case padding_node avx512 loop_i of Inr (Some m) \<Rightarrow> m | _ \<Rightarrow> []) = [fun_u]"
    unfolding candidates_loop_i by auto
  from d0 r0 m1 m2 m3 r1 l1 l2 l3 r2 show ?thesis unfolding list_all_iff by blast
qed

text \<open>
  Claim C6 as stated fails: on a tree whose candidates are written with \<^verbatim>\<open>float32\<close>
  and \<^verbatim>\<open>float64\<close> the pass raises instead of skipping.
\<close>

theorem padding_mixed_dtypes_counterexample:
  "padding avx512 substitute_nothing copy_nothing [mixed_dtypes] = Inl AssertionError"
  by code_simp


subsection \<open>Loop blocking: the trees of a blocked nest\<close>

lemma length_combinations: "length (combinations xs r) = length xs choose r"
  by (induction xs r rule: combinations.induct) simp_all



lemma length_all_combinations: "length (all_combinations ds) = 2 ^ length ds - 1"
proof -
  let ?k = "length ds"
  have "length (all_combinations ds) = (\<Sum>n<?k. ?k choose (n + 1))"
    by (simp add: all_combinations_def length_concat comp_def length_combinations
        interv_sum_list_conv_sum_set_nat atLeast0LessThan)
  also have "\<dots> = (\<Sum>r\<le>?k. ?k choose r) - 1"
    by (simp add: sum.atMost_shift)
  also have "\<dots> = 2 ^ ?k - 1" by (simp add: choose_row_sum)
  finally show ?thesis .
qed





lemma setdefault_block_dimension:
  assumes "\<forall>p \<in> set blocked. snd p = block_dimension (fst p)"
  shows "fst (setdefault blocked i (block_dimension i)) = block_dimension i \<and>
         (\<forall>p \<in> set (snd (setdefault blocked i (block_dimension i))).
             snd p = block_dimension (fst p))"
proof (cases "map_of blocked i")
  case None
  with assms show ?thesis by (simp add: setdefault_def)
next
  case (Some v)
  then have "(i, v) \<in> set blocked" by (rule map_of_SomeD)
  with assms have "v = block_dimension i" by auto
  with Some assms show ?thesis by (simp add: setdefault_def)
qed


lemma dim_remainder_of [simp]: "dim (remainder_of d i) = dim i"
  by (simp add: remainder_of_def Let_def)

lemma dim_intra_block_of [simp]: "dim (intra_block_of d i tag) = dim i"
  by (simp add: intra_block_of_def Let_def)

lemma properties_inter_block_of [simp]: "properties (inter_block_of d i) = [PARALLEL]"
  by (simp add: inter_block_of_def Let_def)



text \<open>
  The dictionary \<^verbatim>\<open>blocked\<close> starts empty and only ever binds an iteration to the block
  dimension made from it.
\<close>

lemma build_blocks_invariant:
  "\<forall>p \<in> set blocked. snd p = block_dimension (fst p) \<Longrightarrow>
   \<forall>p \<in> set (snd (build_blocks blocked tag its)). snd p = block_dimension (fst p)"
proof (induction its arbitrary: blocked)
  case Nil
  then show ?case by simp
next
  case (Cons i its)
  from setdefault_block_dimension [OF Cons.prems, of i]
  have "\<forall>p \<in> set (snd (setdefault blocked i (block_dimension i))).
      snd p = block_dimension (fst p)"
    by simp
  from Cons.IH [OF this] show ?case by (simp add: case_prod_beta Let_def)
qed

lemma block_nest_invariant:
  "\<forall>p \<in> set blocked. snd p = block_dimension (fst p) \<Longrightarrow>
   \<forall>p \<in> set (fst (block_nest exclude_innermost blocked mapper tree)).
      snd p = block_dimension (fst p)"
  using build_blocks_invariant [of blocked]
  by (simp add: block_nest_def Let_def case_prod_beta)

lemma block_nests_invariant:
  "\<forall>p \<in> set blocked. snd p = block_dimension (fst p) \<Longrightarrow>
   \<forall>p \<in> set (fst (block_nests exclude_innermost blocked mapper trees)).
      snd p = block_dimension (fst p)"
proof (induction trees arbitrary: blocked mapper)
  case Nil
  then show ?case by simp
next
  case (Cons t ts)
  from block_nest_invariant [OF Cons.prems]
  have "\<forall>p \<in> set (fst (block_nest exclude_innermost blocked mapper t)).
      snd p = block_dimension (fst p)" .
  from Cons.IH [OF this] show ?case by (simp add: case_prod_beta)
qed

lemma block_trees_invariant:
  "\<forall>p \<in> set blocked. snd p = block_dimension (fst p) \<Longrightarrow>
   \<forall>p \<in> set (fst (block_trees fold_tree unfold_tree exclude_innermost blocked ns)).
      snd p = block_dimension (fst p)"
proof (induction ns arbitrary: blocked)
  case Nil
  then show ?case by simp
next
  case (Cons n ns)
  from block_nests_invariant [OF Cons.prems]
  have "\<forall>p \<in> set (fst (block_nests exclude_innermost blocked []
          (retrieve_iteration_tree (fold_tree n exclude_innermost)))).
      snd p = block_dimension (fst p)" .
  from Cons.IH [OF this] show ?case by (simp add: case_prod_beta Let_def)
qed



lemma select_ij: "select_iterations True [loop_i, loop_j, loop_k] = [loop_i, loop_j]"
  by code_simp

lemma perfect_i: "IsPerfectIteration loop_i"
  by code_simp



subsection \<open>Loop blocking: the innermost loop\<close>

lemma rit_Iteration:
  "retrieve_iteration_tree (Iteration ns d l off ps pr) =
     (if paths_of ns = [] then [[Iteration ns d l off ps pr]]
      else map ((#) (Iteration ns d l off ps pr)) (paths_of ns))"
  by (simp add: Let_def)

lemma rit_is_Iteration:
  "is_Iteration x \<Longrightarrow>
   retrieve_iteration_tree x =
     (if paths_of (nodes x) = [] then [[x]] else map ((#) x) (paths_of (nodes x)))"
  by (cases x) (simp_all add: Let_def)

lemma rit_nonempty_paths: "q \<in> set (retrieve_iteration_tree n) \<Longrightarrow> q \<noteq> []"
  by (induction n arbitrary: q) (auto simp: Let_def split: if_splits)

lemma rit_no_Iteration: "\<not> has_Iteration n \<Longrightarrow> retrieve_iteration_tree n = []"
  by (induction n) (auto simp: list_ex_iff)

lemma paths_of_no_Iteration: "\<not> list_ex has_Iteration ns \<Longrightarrow> paths_of ns = []"
  by (auto simp: list_ex_iff rit_no_Iteration)

lemma rit_suffix:
  "tree \<in> set (retrieve_iteration_tree n) \<Longrightarrow> tree = pre @ x # post \<Longrightarrow>
   x # post \<in> set (retrieve_iteration_tree x)"
proof (induction n arbitrary: tree pre)
  case (Iteration ns d l off ps pr)
  let ?self = "Iteration ns d l off ps pr"
  show ?case
  proof (cases "paths_of ns = []")
    case True
    then have r: "retrieve_iteration_tree ?self = [[?self]]"
      by (simp add: Let_def)
    with Iteration.prems(1) have "tree = [?self]" by simp
    with Iteration.prems(2) have "pre = []" "x = ?self" "post = []"
      by (auto simp: Cons_eq_append_conv)
    with r show ?thesis by simp
  next
    case False
    then have r: "retrieve_iteration_tree ?self = map ((#) ?self) (paths_of ns)"
      by (auto simp: Let_def)
    with Iteration.prems(1) obtain q where q: "q \<in> set (paths_of ns)" "tree = ?self # q"
      by auto
    show ?thesis
    proof (cases pre)
      case Nil
      with q Iteration.prems(2) have "x = ?self" "post = q" by auto
      with q r show ?thesis by simp
    next
      case (Cons a pre')
      with q Iteration.prems(2) have q': "q = pre' @ x # post" by auto
      from q(1) obtain c where c: "c \<in> set ns" "q \<in> set (retrieve_iteration_tree c)" by auto
      from Iteration.IH [OF c(1) c(2) q'] show ?thesis .
    qed
  qed
next
  case (List h b f)
  then obtain c where c: "c \<in> set b" "tree \<in> set (retrieve_iteration_tree c)" by auto
  from List.IH [OF c(1) c(2) List.prems(2)] show ?case .
next
  case (Block h b f)
  then obtain c where c: "c \<in> set b" "tree \<in> set (retrieve_iteration_tree c)" by auto
  from Block.IH [OF c(1) c(2) Block.prems(2)] show ?case .
qed simp_all


lemma perfect_single_path:
  "IsPerfectIteration x \<Longrightarrow> \<exists>q. retrieve_iteration_tree x = [x # q]"
proof (induction x)
  case (Iteration ns d l off ps pr)
  let ?self = "Iteration ns d l off ps pr"
  show ?case
  proof (cases "list_ex has_Iteration ns")
    case False
    then have "paths_of ns = []" by (rule paths_of_no_Iteration)
    then show ?thesis by (simp add: Let_def)
  next
    case True
    with Iteration.prems obtain c where c: "ns = [c]" "IsPerfectIteration c"
      by (auto split: list.splits)
    with Iteration.IH [of c] obtain q where "retrieve_iteration_tree c = [c # q]" by auto
    with c show ?thesis by (simp add: Let_def)
  qed
qed simp_all

lemma perfect_suffix:
  "IsPerfectIteration x \<Longrightarrow> retrieve_iteration_tree x = [a @ z # b] \<Longrightarrow>
   IsPerfectIteration z \<and> retrieve_iteration_tree z = [z # b]"
proof (induction x arbitrary: a)
  case (Iteration ns d l off ps pr)
  let ?self = "Iteration ns d l off ps pr"
  show ?case
  proof (cases "list_ex has_Iteration ns")
    case False
    then have "paths_of ns = []" by (rule paths_of_no_Iteration)
    then have "retrieve_iteration_tree ?self = [[?self]]" by (simp add: Let_def)
    with Iteration.prems(2) have "a = []" "z = ?self" "b = []"
      by (auto simp: Cons_eq_append_conv simp del: retrieve_iteration_tree.simps)
    with Iteration.prems show ?thesis
      by (simp del: retrieve_iteration_tree.simps IsPerfectIteration.simps)
  next
    case True
    with Iteration.prems(1) obtain c where c: "ns = [c]" "IsPerfectIteration c"
      by (auto split: list.splits)
    from perfect_single_path [OF c(2)] obtain q where q: "retrieve_iteration_tree c = [c # q]"
      by auto
    with c have r: "retrieve_iteration_tree ?self = [?self # c # q]" by (simp add: Let_def)
    show ?thesis
    proof (cases a)
      case Nil
      with r Iteration.prems(2) have "z = ?self" "b = c # q"
        by (simp_all del: retrieve_iteration_tree.simps)
      with r Iteration.prems(1) show ?thesis
        by (simp del: retrieve_iteration_tree.simps IsPerfectIteration.simps)
    next
      case (Cons a0 a')
      with r Iteration.prems(2) have "c # q = a' @ z # b"
        by (simp del: retrieve_iteration_tree.simps)
      with q have "retrieve_iteration_tree c = [a' @ z # b]" by simp
      from Iteration.IH [of c, OF _ c(2) this] c(1) show ?thesis by simp
    qed
  qed
qed simp_all

lemma is_Iteration_rebuild_nodes: "is_Iteration l \<Longrightarrow> is_Iteration (rebuild_nodes l ns)"
  by (cases l) simp_all

lemma nodes_rebuild_nodes: "is_Iteration l \<Longrightarrow> nodes (rebuild_nodes l ns) = ns"
  by (cases l) simp_all

lemma rit_rebuild_nodes:
  assumes "is_Iteration l" "paths_of ns = [q]" "q \<noteq> []"
  shows "\<exists>q'. retrieve_iteration_tree (rebuild_nodes l ns) = [q'] \<and> last q' = last q"
proof -
  have "retrieve_iteration_tree (rebuild_nodes l ns) = [rebuild_nodes l ns # q]"
    using assms(1,2)
    by (subst rit_is_Iteration)
      (simp_all only: is_Iteration_rebuild_nodes nodes_rebuild_nodes, simp)
  with assms(3) show ?thesis by simp
qed

lemma rit_compose_nodes:
  "loops \<noteq> [] \<Longrightarrow> \<forall>l \<in> set loops. is_Iteration l \<Longrightarrow> paths_of inner = [b] \<Longrightarrow> b \<noteq> [] \<Longrightarrow>
   \<exists>q. retrieve_iteration_tree (compose_nodes loops inner) = [q] \<and> last q = last b"
proof (induction loops inner rule: compose_nodes.induct)
  case (1 b)
  then show ?case by simp
next
  case (2 i b')
  then show ?case using rit_rebuild_nodes [of i b' b] by simp
next
  case (3 i j "is" b')
  then obtain q where q: "retrieve_iteration_tree (compose_nodes (j # is) b') = [q]"
      "last q = last b"
    by auto
  then have "q \<noteq> []" using rit_nonempty_paths [of q "compose_nodes (j # is) b'"] by simp
  with q 3 rit_rebuild_nodes [of i "[compose_nodes (j # is) b']" q] show ?case by simp
qed


lemma is_Iteration_rebuild_properties [simp]:
  "is_Iteration (rebuild_properties l ps) = is_Iteration l"
  by (cases l) simp_all

lemma is_Iteration_blocks [simp]:
  "is_Iteration (inter_block_of d i)" "is_Iteration (intra_block_of d i tag)"
  "is_Iteration (remainder_of d i)"
  by (simp_all add: inter_block_of_def intra_block_of_def remainder_of_def Let_def)

lemma build_blocks_Iterations:
  "t \<in> set (fst (build_blocks blocked tag its)) \<Longrightarrow>
   is_Iteration (fst t) \<and> is_Iteration (fst (snd t)) \<and> is_Iteration (snd (snd t))"
  by (induction its arbitrary: blocked) (auto simp: case_prod_beta Let_def)

lemma build_blocks_length: "length (fst (build_blocks blocked tag its)) = length its"
  by (induction its arbitrary: blocked) (auto simp: case_prod_beta Let_def)

lemma perfect_is_Iteration: "IsPerfectIteration x \<Longrightarrow> is_Iteration x"
  by (cases x) simp_all

lemma select_iterations_filter:
  "select_iterations True tree = filter (\<lambda>i. is_Parallel i \<and> \<not> is_Vectorizable i) tree"
  by (simp add: select_iterations_def Let_def conj_commute)

lemma inner_paths:
  assumes tree: "tree \<in> set (retrieve_iteration_tree n)"
    and vec: "is_Vectorizable (last tree)"
    and its: "iterations = select_iterations True tree" "iterations \<noteq> []"
    and perfect: "IsPerfectIteration (hd iterations)"
  shows "\<exists>b. paths_of (nodes (last iterations)) = [b] \<and> b \<noteq> [] \<and> last b = last tree"
proof -
  let ?P = "\<lambda>i. is_Parallel i \<and> \<not> is_Vectorizable i"
  define root where "root = hd iterations"
  define li where "li = last iterations"
  have f: "filter ?P tree = iterations"
    using its(1) by (simp add: select_iterations_filter)
  have c: "iterations = root # tl iterations" using its(2) by (simp add: root_def)
  with f have "filter ?P tree = root # tl iterations" by simp
  then obtain us vs where split: "tree = us @ root # vs"
    and rest: "tl iterations = filter ?P vs"
    unfolding filter_eq_Cons_iff by blast
  have "root # vs \<in> set (retrieve_iteration_tree root)"
    by (rule rit_suffix [OF tree split])
  moreover from perfect_single_path [OF perfect]
  obtain q where "retrieve_iteration_tree root = [root # q]" by (auto simp: root_def)
  ultimately have root_path: "retrieve_iteration_tree root = [root # vs]"
    by simp
  have "li \<in> set iterations" using its(2) by (simp add: li_def)
  then have "li \<in> set (filter ?P tree)" by (simp only: f)
  then have li_P: "?P li" by simp
  have "li \<in> set (root # tl iterations)" using \<open>li \<in> set iterations\<close> c by simp
  then have li_in: "li \<in> set (root # vs)" using rest by auto
  from split_list [OF this] obtain a b where ab: "root # vs = a @ li # b"
    by blast
  with root_path have "retrieve_iteration_tree root = [a @ li # b]" by simp
  from perfect_suffix [OF perfect [folded root_def] this]
  have li_perfect: "IsPerfectIteration li" and li_path: "retrieve_iteration_tree li = [li # b]"
    by simp_all
  have "tree = (us @ a) @ li # b" using split ab by simp
  then have last_tree: "last tree = last (li # b)"
    by (simp only: last_append) simp
  have b_ne: "b \<noteq> []"
  proof
    assume "b = []"
    with last_tree have "last tree = li" by simp
    with vec li_P show False by simp
  qed
  with last_tree have last_b: "last b = last tree" by simp
  have "is_Iteration li" by (rule perfect_is_Iteration [OF li_perfect])
  from rit_is_Iteration [OF this] li_path b_ne
  have "paths_of (nodes li) = [b]"
    by (auto split: if_splits simp: map_eq_Cons_conv)
  with b_ne last_b show ?thesis unfolding li_def by blast
qed

text \<open>
  Claim C4. With the exclude-innermost policy (\<^verbatim>\<open>blockinner\<close> not set), let the innermost
  loop of a nest be vectorizable. If the nest is blocked, its root is mapped to
  \<open>2 ^ k\<close> trees, the blocked tree and the remainder trees, and each of them is a
  single nest whose innermost loop is the innermost loop of the original nest, as the
  same node: limits, step and body are what they were.
\<close>

theorem blocking_keeps_innermost:
  assumes "tree \<in> set (retrieve_iteration_tree n)"
    and "is_Vectorizable (last tree)"
    and "iterations = select_iterations True tree" and "iterations \<noteq> []"
    and "IsPerfectIteration (hd iterations)"
  shows "\<exists>trees. map_of (snd (block_nest True blocked mapper tree)) (hd iterations)
            = Some (List [] trees []) \<and>
          length trees = 2 ^ length iterations \<and>
          (\<forall>T \<in> set trees. \<exists>p. retrieve_iteration_tree T = [p] \<and> last p = last tree)"
proof -
  let ?tag = "tagger (length mapper)"
  let ?blocks = "fst (build_blocks blocked ?tag iterations)"
  let ?inner = "nodes (last iterations)"
  let ?trees = "blocked_tree ?blocks ?inner # remainder_trees ?blocks ?tag ?inner iterations"
  from inner_paths [OF assms] obtain b where
    b: "paths_of ?inner = [b]" "b \<noteq> []" "last b = last tree" by blast
  have ne: "?blocks \<noteq> []"
    using build_blocks_length [of blocked ?tag iterations] assms(4) by auto
  have its: "\<And>t. t \<in> set ?blocks \<Longrightarrow>
      is_Iteration (fst t) \<and> is_Iteration (fst (snd t)) \<and> is_Iteration (snd (snd t))"
    by (rule build_blocks_Iterations)
  have m: "map_of (snd (block_nest True blocked mapper tree)) (hd iterations)
      = Some (List [] ?trees [])"
    using assms(4,5) unfolding block_nest_def assms(3) [symmetric] Let_def
    by (simp add: case_prod_beta update_conv')
  have len: "length ?trees = 2 ^ length iterations"
    using length_all_combinations [of "map dim iterations"]
    by (simp add: remainder_trees_def)
  have "\<exists>p. retrieve_iteration_tree T = [p] \<and> last p = last tree" if "T \<in> set ?trees" for T
  proof -
    from that consider "T = blocked_tree ?blocks ?inner"
      | c where "T = remainder_tree ?blocks ?tag ?inner c"
      by (auto simp: remainder_trees_def)
    then show ?thesis
    proof cases
      case 1
      have "\<exists>q. retrieve_iteration_tree
            (compose_nodes (map fst ?blocks @ map (\<lambda>(b, b', r). b') ?blocks) ?inner) = [q] \<and>
          last q = last b"
        using ne its by (intro rit_compose_nodes [OF _ _ b(1,2)]) (auto simp: case_prod_beta)
      with 1 b(3) show ?thesis by (simp add: blocked_tree_def)
    next
      case 2
      have "\<exists>q. retrieve_iteration_tree
            (compose_nodes
               (map (\<lambda>(b, b', r). rebuild_properties b (properties b @ [REMAINDER]))
                  (filter (\<lambda>(b, b', r). dim r \<notin> set c) ?blocks) @
                map (\<lambda>(b, b', r). rebuild_properties (if dim b' \<in> set c then r else b')
                      [REMAINDER, ?tag, ELEMENTAL]) ?blocks) ?inner) = [q] \<and>
          last q = last b"
        using ne its by (intro rit_compose_nodes [OF _ _ b(1,2)]) (auto simp: case_prod_beta)
      with 2 b(3) show ?thesis by (simp add: remainder_tree_def Let_def)
    qed
  qed
  with m len show ?thesis by blast
qed


lemma path_ijk: "retrieve_iteration_tree loop_i = [[loop_i, loop_j, loop_k]]"
  by code_simp

lemma mapped_ij:
  "map_of (snd (block_nest True [] [] [loop_i, loop_j, loop_k])) loop_i = Some blocked_ij"
  by code_simp

lemma blocked_ij_List: "blocked_ij = List [] (body blocked_ij) []"
  by code_simp

theorem blocking_keeps_innermost_witness:
  "[loop_i, loop_j, loop_k] \<in> set (retrieve_iteration_tree loop_i) \<and>
   is_Vectorizable (last [loop_i, loop_j, loop_k]) \<and>
   length (body blocked_ij) = 4 \<and>
   list_all (\<lambda>T. map last (retrieve_iteration_tree T) = [loop_k]) (body blocked_ij) \<and>
   limits loop_k = (Num 0, Num 4, Num 1)"
proof -
  have h1: "[loop_i, loop_j, loop_k] \<in> set (retrieve_iteration_tree loop_i)"
    by (simp only: path_ijk) simp
  have h2: "is_Vectorizable (last [loop_i, loop_j, loop_k])"
    by (simp add: is_Vectorizable_def loop_k_def)
  have h3: "[loop_i, loop_j] = select_iterations True [loop_i, loop_j, loop_k]"
    by (simp only: select_ij)
  have h4: "[loop_i, loop_j] \<noteq> []" by simp
  have h5: "IsPerfectIteration (hd [loop_i, loop_j])" using perfect_i by simp
  from blocking_keeps_innermost [OF h1 h2 h3 h4 h5, of "[]" "[]"]
  obtain trees where t: "map_of (snd (block_nest True [] [] [loop_i, loop_j, loop_k])) loop_i
        = Some (List [] trees [])"
      "length trees = 4"
      "\<forall>T \<in> set trees. \<exists>p. retrieve_iteration_tree T = [p] \<and> last p = loop_k"
    by auto
  from t(1) mapped_ij have "blocked_ij = List [] trees []" by simp
  then have "body blocked_ij = body (List [] trees [])" by (rule arg_cong)
  then have b: "body blocked_ij = trees" by simp
  from t(3) have "list_all (\<lambda>T. map last (retrieve_iteration_tree T) = [loop_k]) trees"
    unfolding list_all_iff by auto
  with b t(2) h1 h2 show ?thesis by (simp add: loop_k_def)
qed

subsection \<open>Loop blocking: coverage of the iteration domain\<close>

text \<open>
  Claim C1 fails on the code. The bound of the inter-block loop is computed as
  \<^verbatim>\<open>finish - ((finish - offsets[1]) % block_size)\<close> (line 157), which is aligned with
  the first point \<^verbatim>\<open>limits[0] - offsets[0]\<close> only when that point is congruent to
  \<^verbatim>\<open>offsets[1]\<close> modulo the block size, as for a centred stencil. For the forward
  difference over 20 points with blocks of 8, the original loop executes the points 0 to
  18; the blocked tree executes 0 to 23, and the remainder tree executes 17 and 18 once
  more.
\<close>

theorem blocking_overlap_forward_difference:
  "length (body blocked_forward) = 2 \<and>
   points [''x''] block_of_8 forward_loop = Some (line 0 18) \<and>
   points [''x''] block_of_8 (body blocked_forward ! 0) = Some (line 0 23) \<and>
   points [''x''] block_of_8 (body blocked_forward ! 1) = Some (line 17 18)"
  by code_simp

text \<open>
  For the centred difference the blocked tree and the remainder tree split the points
  1 to 18 of the original loop between them.
\<close>

lemma blocking_partition_centred_difference:
  "length (body blocked_centred) = 2 \<and>
   points [''x''] block_of_8 centred_loop = Some (line 1 18) \<and>
   points [''x''] block_of_8 (body blocked_centred ! 0) = Some (line 1 16) \<and>
   points [''x''] block_of_8 (body blocked_centred ! 1) = Some (line 17 18)"
  by code_simp


end
